theory Spec2Isabelle
  imports Complex_Main "HOL-Library.Sublist"
begin

section \<open>Tensors as nested lists\<close>

text \<open>
  The model of \<^verbatim>\<open>model.py\<close>. A tensor is a nested list in row-major order: a 4D tensor
  \<open>[B, C, H, W]\<close> is a list of \<open>B\<close> lists of \<open>C\<close> lists of \<open>H\<close> rows of length \<open>W\<close>.
  Arithmetic is exact arithmetic over the reals: the rounding of 32-bit floats is not
  part of the model. The operations of the tensor library are modelled by their documented
  meaning on well-shaped (rectangular, non-empty) tensors; a shape mismatch, which the
  library reports by raising, is excluded by the shape hypotheses of the theorems.
\<close>

type_synonym vec = "real list"
type_synonym mat = "real list list"
type_synonym tensor3 = "real list list list"
type_synonym tensor4 = "real list list list list"

definition size4 :: "'a list list list list \<Rightarrow> nat \<times> nat \<times> nat \<times> nat" where
  "size4 t = (length t, length (hd t), length (hd (hd t)), length (hd (hd (hd t))))"

definition is_mat :: "'a list list \<Rightarrow> nat \<Rightarrow> nat \<Rightarrow> bool" where
  "is_mat A n m = (length A = n \<and> list_all (\<lambda>r. length r = m) A)"

definition is_tensor3 :: "'a list list list \<Rightarrow> nat \<Rightarrow> nat \<Rightarrow> nat \<Rightarrow> bool" where
  "is_tensor3 t n1 n2 n3 = (length t = n1 \<and> list_all (\<lambda>x. is_mat x n2 n3) t)"

definition is_tensor4 :: "'a list list list list \<Rightarrow> nat \<Rightarrow> nat \<Rightarrow> nat \<Rightarrow> nat \<Rightarrow> bool" where
  "is_tensor4 t n1 n2 n3 n4 = (length t = n1 \<and> list_all (\<lambda>x. is_tensor3 x n2 n3 n4) t)"

definition dot :: "vec \<Rightarrow> vec \<Rightarrow> real" where
  "dot a b = sum_list (map2 (*) a b)"

text \<open>\<^verbatim>\<open>nn.Conv2d(cin, cout, 1)\<close>: a 1x1 convolution, the kernel \<open>[cout, cin, 1, 1]\<close> kept
  as the matrix \<open>[cout, cin]\<close>.\<close>

definition Conv2d_1x1 :: "mat \<Rightarrow> vec \<Rightarrow> tensor4 \<Rightarrow> tensor4" where
  "Conv2d_1x1 weight bias z =
     (case size4 z of (B, C, H, W) \<Rightarrow>
        map (\<lambda>x. map2 (\<lambda>wrow b.
               map (\<lambda>h. map (\<lambda>w. b + dot wrow (map (\<lambda>xc. xc ! h ! w) x)) [0..<W]) [0..<H])
             weight bias) z)"

text \<open>\<^verbatim>\<open>t.permute(0, 2, 3, 1)\<close> and \<^verbatim>\<open>t.permute(0, 3, 1, 2)\<close>.\<close>

definition permute_0231 :: "'a list list list list \<Rightarrow> 'a list list list list" where
  "permute_0231 t =
     (case size4 t of (n0, n1, n2, n3) \<Rightarrow>
        map (\<lambda>x. map (\<lambda>i2. map (\<lambda>i3. map (\<lambda>i1. x ! i1 ! i2 ! i3) [0..<n1]) [0..<n3]) [0..<n2]) t)"

definition permute_0312 :: "'a list list list list \<Rightarrow> 'a list list list list" where
  "permute_0312 t =
     (case size4 t of (n0, n1, n2, n3) \<Rightarrow>
        map (\<lambda>x. map (\<lambda>i3. map (\<lambda>i1. map (\<lambda>i2. x ! i1 ! i2 ! i3) [0..<n2]) [0..<n1]) [0..<n3]) t)"

text \<open>Reshaping re-chunks the row-major data: \<^verbatim>\<open>t.reshape(-1, d)\<close> and
  \<^verbatim>\<open>v.view(B, H, W)\<close>.\<close>

function chunks :: "nat \<Rightarrow> 'a list \<Rightarrow> 'a list list" where
  "chunks n xs = (if n = 0 \<or> xs = [] then [] else take n xs # chunks n (drop n xs))"
  by pat_completeness auto
termination
  by (relation "measure (\<lambda>(n, xs). length xs)") auto

declare chunks.simps [simp del]

definition reshape_rows :: "nat \<Rightarrow> 'a list list list list \<Rightarrow> 'a list list" where
  "reshape_rows d t = chunks d (concat (concat (concat t)))"

definition view3 :: "nat \<Rightarrow> nat \<Rightarrow> nat \<Rightarrow> 'a list \<Rightarrow> 'a list list list" where
  "view3 B H W xs = chunks H (chunks W xs)"

definition t_mat :: "'a list list \<Rightarrow> 'a list list" where
  "t_mat A = map (\<lambda>j. map (\<lambda>r. r ! j) A) [0..<length (hd A)]"

definition matmul :: "mat \<Rightarrow> mat \<Rightarrow> mat" where
  "matmul A M = map (\<lambda>r. map (\<lambda>c. dot r c) (t_mat M)) A"

definition pow2 :: "mat \<Rightarrow> mat" where
  "pow2 A = map (map (\<lambda>x. x ^ 2)) A"

definition sum1_keepdim :: "mat \<Rightarrow> mat" where
  "sum1_keepdim A = map (\<lambda>r. [sum_list r]) A"

definition scale :: "real \<Rightarrow> mat \<Rightarrow> mat" where
  "scale c A = map (map (\<lambda>x. c * x)) A"

definition neg :: "mat \<Rightarrow> mat" where
  "neg A = map (map uminus) A"

text \<open>Broadcasting of two matrices: a dimension of size 1 is stretched to the other
  operand's size.\<close>

definition expand :: "nat \<Rightarrow> nat \<Rightarrow> mat \<Rightarrow> mat" where
  "expand n m A =
     map (\<lambda>r. if length r = 1 then replicate m (hd r) else r)
         (if length A = 1 then replicate n (hd A) else A)"

definition broadcast2 :: "(real \<Rightarrow> real \<Rightarrow> real) \<Rightarrow> mat \<Rightarrow> mat \<Rightarrow> mat" where
  "broadcast2 f A M =
     (let n = max (length A) (length M);
          m = max (length (hd A)) (length (hd M))
      in map2 (map2 f) (expand n m A) (expand n m M))"

text \<open>\<^verbatim>\<open>max\<close> and \<^verbatim>\<open>argmax\<close> along a dimension return the index of the first maximal
  value.\<close>

fun argmax_from :: "nat \<Rightarrow> real \<Rightarrow> nat \<Rightarrow> real list \<Rightarrow> nat" where
  "argmax_from best_i best i [] = best_i"
| "argmax_from best_i best i (x # xs) =
     (if best < x then argmax_from i x (Suc i) xs else argmax_from best_i best (Suc i) xs)"

definition argmax :: "real list \<Rightarrow> nat" where
  "argmax xs = argmax_from 0 (hd xs) 1 (tl xs)"

definition max1_indices :: "mat \<Rightarrow> nat list" where
  "max1_indices A = map argmax A"

definition embedding :: "nat list list list \<Rightarrow> mat \<Rightarrow> tensor4" where
  "embedding embed_id weight = map (map (map (\<lambda>i. weight ! i))) embed_id"

text \<open>\<^verbatim>\<open>detach\<close> cuts the gradient graph; on values it is the identity.\<close>

definition detach :: "'a \<Rightarrow> 'a" where
  "detach x = x"

definition map4 :: "(real \<Rightarrow> real) \<Rightarrow> tensor4 \<Rightarrow> tensor4" where
  "map4 f a = map (map (map (map f))) a"

definition zip4 :: "(real \<Rightarrow> real \<Rightarrow> real) \<Rightarrow> tensor4 \<Rightarrow> tensor4 \<Rightarrow> tensor4" where
  "zip4 f a b = map2 (map2 (map2 (map2 f))) a b"

definition mean3 :: "tensor3 \<Rightarrow> real" where
  "mean3 a = (let flat = concat (concat a) in sum_list flat / real (length flat))"

definition mean4 :: "tensor4 \<Rightarrow> real" where
  "mean4 a = (let flat = concat (concat (concat a)) in sum_list flat / real (length flat))"

definition sum_dim0 :: "tensor3 \<Rightarrow> mat" where
  "sum_dim0 x =
     map (\<lambda>h. map (\<lambda>w. sum_list (map (\<lambda>xn. xn ! h ! w) x)) [0..<length (hd (hd x))])
         [0..<length (hd x)]"

definition sum_dim1 :: "tensor4 \<Rightarrow> tensor3" where
  "sum_dim1 t = map sum_dim0 t"

definition softmax_dim0 :: "tensor3 \<Rightarrow> tensor3" where
  "softmax_dim0 x =
     (let e = map (map (map exp)) x; total = sum_dim0 e
      in map (\<lambda>en. map2 (map2 (/)) en total) e)"

definition softmax_dim1 :: "tensor4 \<Rightarrow> tensor4" where
  "softmax_dim1 t = map softmax_dim0 t"

definition argmax_dim1 :: "tensor4 \<Rightarrow> nat list list list" where
  "argmax_dim1 t =
     map (\<lambda>x. map (\<lambda>h. map (\<lambda>w. argmax (map (\<lambda>xn. xn ! h ! w) x)) [0..<length (hd (hd x))])
                    [0..<length (hd x)]) t"

definition scatter_dim1 :: "nat \<Rightarrow> nat list list list \<Rightarrow> tensor4" where
  "scatter_dim1 n index =
     map (\<lambda>ix. map (\<lambda>k. map (map (\<lambda>i. if i = k then 1 else 0)) ix) [0..<n]) index"

text \<open>\<^verbatim>\<open>F.gumbel_softmax(logits, tau, hard, dim=1)\<close>; the Gumbel noise it samples is the
  argument \<open>gumbels\<close>.\<close>

definition gumbel_softmax :: "tensor4 \<Rightarrow> tensor4 \<Rightarrow> real \<Rightarrow> bool \<Rightarrow> tensor4" where
  "gumbel_softmax gumbels logits tau hard =
     (let g = zip4 (\<lambda>l n. (l + n) / tau) logits gumbels;
          y_soft = softmax_dim1 g
      in if hard then
           let index = argmax_dim1 y_soft;
               y_hard = scatter_dim1 (length (hd logits)) index
           in zip4 (+) (zip4 (-) y_hard (detach y_soft)) y_soft
         else y_soft)"

text \<open>\<^verbatim>\<open>einsum('b n h w, n d -> b d h w', a, weight)\<close>.\<close>

definition einsum_bnhw_nd :: "tensor4 \<Rightarrow> mat \<Rightarrow> tensor4" where
  "einsum_bnhw_nd a weight =
     (case size4 a of (B, N, H, W) \<Rightarrow>
        map (\<lambda>x. map (\<lambda>d. map (\<lambda>h. map (\<lambda>w.
               sum_list (map (\<lambda>n. x ! n ! h ! w * weight ! n ! d) [0..<N]))
             [0..<W]) [0..<H]) [0..<length (hd weight)]) a)"

section \<open>The quantizers\<close>

record quantize_module =
  training :: bool
  embedding_dim :: nat
  n_embed :: nat
  proj_in_channels :: nat
  proj_weight :: mat
  proj_bias :: vec
  embed_weight :: mat

record VQ_state = quantize_module +
  data_initialized :: real
  stdout :: "string list"

record Gumbel_state = quantize_module +
  straight_through :: bool
  temperature :: real

text \<open>The exceptions a call can raise.\<close>

datatype error = KeyError | AssertionError | ShapeError | ValueError

text \<open>What the constructors and a forward call take from outside: the random initial
  weights, the random permutation and the k-means routine. The k-means routine either
  returns the centers or raises; the library's \<^verbatim>\<open>kmeans2\<close> with \<^verbatim>\<open>minit='points'\<close> raises
  \<^verbatim>\<open>ValueError\<close> when it is given fewer data rows than the clusters it is asked for.\<close>

record initializers =
  init_weight :: "nat \<Rightarrow> nat \<Rightarrow> mat"
  init_bias :: "nat \<Rightarrow> vec"

record externals =
  randperm :: "nat \<Rightarrow> nat list"
  kmeans2 :: "mat \<Rightarrow> nat \<Rightarrow> error + mat"

definition VQVAEQuantize_init :: "initializers \<Rightarrow> nat \<Rightarrow> nat \<Rightarrow> nat \<Rightarrow> VQ_state" where
  "VQVAEQuantize_init ini num_hiddens embedding_dim' n_embed' =
     \<lparr> training = True,
       embedding_dim = embedding_dim',
       n_embed = n_embed',
       proj_in_channels = num_hiddens,
       proj_weight = init_weight ini embedding_dim' num_hiddens,
       proj_bias = init_bias ini embedding_dim',
       embed_weight = init_weight ini n_embed' embedding_dim',
       data_initialized = 0,
       stdout = [] \<rparr>"

text \<open>The seeding block of \<^verbatim>\<open>forward\<close>, in the order of the source: the line is printed,
  then k-means is called, and only when it has returned is the codebook overwritten and the
  flag set. The result is the state the block leaves and the exception it raised, if any.\<close>

definition seed_codebook :: "externals \<Rightarrow> VQ_state \<Rightarrow> mat \<Rightarrow> VQ_state \<times> error option" where
  "seed_codebook rnd self flatten =
     (if training self \<and> data_initialized self = 0 then
        let self = self\<lparr> stdout := stdout self @ [''running kmeans!!''] \<rparr>;
            rp = randperm rnd (length flatten)
        in case kmeans2 rnd (map (\<lambda>i. flatten ! i) (take 20000 rp)) (n_embed self) of
             Inl e \<Rightarrow> (self, Some e)
           | Inr kd \<Rightarrow> (self\<lparr> embed_weight := kd, data_initialized := 1 \<rparr>, None)
      else (self, None))"

definition dist_expansion :: "mat \<Rightarrow> mat \<Rightarrow> mat" where
  "dist_expansion flatten weight =
     broadcast2 (+)
       (broadcast2 (-)
          (sum1_keepdim (pow2 flatten))
          (matmul (scale 2 flatten) (t_mat weight)))
       (t_mat (sum1_keepdim (pow2 weight)))"

text \<open>A forward call gives the state it leaves and either the exception raised in the
  seeding block or the three results.\<close>

definition VQVAEQuantize_forward ::
    "externals \<Rightarrow> VQ_state \<Rightarrow> tensor4 \<Rightarrow>
       VQ_state \<times> (error + tensor4 \<times> real \<times> nat list list list)" where
  "VQVAEQuantize_forward rnd self z =
     (case size4 z of (B, C, H, W) \<Rightarrow>
      let z_e = Conv2d_1x1 (proj_weight self) (proj_bias self) z;
          z_e = permute_0231 z_e;
          flatten = reshape_rows (embedding_dim self) z_e
      in case seed_codebook rnd self flatten of
           (self, Some e) \<Rightarrow> (self, Inl e)
         | (self, None) \<Rightarrow>
             let dist = dist_expansion flatten (embed_weight self);
                 ind = max1_indices (neg dist);
                 ind = view3 B H W ind;
                 z_q = embedding ind (embed_weight self);
                 commitment_cost = 0.25;
                 diff = commitment_cost * mean4 (map4 (\<lambda>x. x ^ 2) (zip4 (-) (detach z_q) z_e))
                        + mean4 (map4 (\<lambda>x. x ^ 2) (zip4 (-) z_q (detach z_e)));
                 z_q = zip4 (+) z_e (detach (zip4 (-) z_q z_e));
                 z_q = permute_0312 z_q
             in (self, Inr (z_q, diff, ind)))"

definition GumbelQuantize_init ::
    "initializers \<Rightarrow> nat \<Rightarrow> nat \<Rightarrow> nat \<Rightarrow> bool option \<Rightarrow> Gumbel_state" where
  "GumbelQuantize_init ini num_hiddens embedding_dim' n_embed' straight_through' =
     \<lparr> training = True,
       embedding_dim = embedding_dim',
       n_embed = n_embed',
       proj_in_channels = num_hiddens,
       proj_weight = init_weight ini n_embed' num_hiddens,
       proj_bias = init_bias ini n_embed',
       embed_weight = init_weight ini n_embed' embedding_dim',
       straight_through = (case straight_through' of None \<Rightarrow> True | Some b \<Rightarrow> b),
       temperature = 1 \<rparr>"

definition Gumbel_hard :: "Gumbel_state \<Rightarrow> bool" where
  "Gumbel_hard self = (if training self then straight_through self else True)"

definition Gumbel_soft_one_hot :: "tensor4 \<Rightarrow> Gumbel_state \<Rightarrow> tensor4 \<Rightarrow> tensor4" where
  "Gumbel_soft_one_hot gumbels self z =
     (let hard = Gumbel_hard self;
          logits = Conv2d_1x1 (proj_weight self) (proj_bias self) z
      in gumbel_softmax gumbels logits (temperature self) hard)"

definition GumbelQuantize_forward ::
    "tensor4 \<Rightarrow> Gumbel_state \<Rightarrow> tensor4 \<Rightarrow> tensor4 \<times> real \<times> nat list list list" where
  "GumbelQuantize_forward gumbels self z =
     (let logits = Conv2d_1x1 (proj_weight self) (proj_bias self) z;
          soft_one_hot = Gumbel_soft_one_hot gumbels self z;
          z_q = einsum_bnhw_nd soft_one_hot (embed_weight self);
          kld_scale = 5 / 10 ^ 4;
          qy = softmax_dim1 logits;
          diff = kld_scale *
                 mean3 (sum_dim1 (zip4 (*) qy
                   (map4 ln (map4 (\<lambda>x. x + 1 / 10 ^ 10) (map4 (\<lambda>x. x * real (n_embed self)) qy)))));
          ind = argmax_dim1 soft_one_hot
      in (z_q, diff, ind))"







section \<open>The reference notions of the specification\<close>

definition sqdist :: "vec \<Rightarrow> vec \<Rightarrow> real" where
  "sqdist a b = sum_list (map2 (\<lambda>x y. (x - y) ^ 2) a b)"

definition first_argmin :: "(nat \<Rightarrow> real) \<Rightarrow> nat \<Rightarrow> nat \<Rightarrow> bool" where
  "first_argmin f n k =
     (k < n \<and> list_all (\<lambda>j. f k \<le> f j) [0..<n] \<and> list_all (\<lambda>j. f k < f j) [0..<k])"

text \<open>The projected feature vector at a location, and the codebook a forward call leaves
  (the seeded one, when the call seeds), which is the one it computes the distances to.\<close>

definition projected :: "VQ_state \<Rightarrow> tensor4 \<Rightarrow> nat \<Rightarrow> nat \<Rightarrow> nat \<Rightarrow> vec" where
  "projected self z b h w =
     map (\<lambda>e. Conv2d_1x1 (proj_weight self) (proj_bias self) z ! b ! e ! h ! w)
         [0..<embedding_dim self]"

definition codebook :: "externals \<Rightarrow> VQ_state \<Rightarrow> tensor4 \<Rightarrow> mat" where
  "codebook rnd self z = embed_weight (fst (VQVAEQuantize_forward rnd self z))"

definition mse_spec :: "(nat \<Rightarrow> nat \<Rightarrow> nat \<Rightarrow> nat \<Rightarrow> real) \<Rightarrow> (nat \<Rightarrow> nat \<Rightarrow> nat \<Rightarrow> nat \<Rightarrow> real)
    \<Rightarrow> nat \<Rightarrow> nat \<Rightarrow> nat \<Rightarrow> nat \<Rightarrow> real" where
  "mse_spec a b n1 n2 n3 n4 =
     (\<Sum>i1\<leftarrow>[0..<n1]. \<Sum>i2\<leftarrow>[0..<n2]. \<Sum>i3\<leftarrow>[0..<n3]. \<Sum>i4\<leftarrow>[0..<n4].
         (a i1 i2 i3 i4 - b i1 i2 i3 i4) ^ 2)
     / real (n1 * n2 * n3 * n4)"

definition softmax_spec :: "(nat \<Rightarrow> real) \<Rightarrow> nat \<Rightarrow> nat \<Rightarrow> real" where
  "softmax_spec l n k = exp (l k) / (\<Sum>j\<leftarrow>[0..<n]. exp (l j))"

definition kl_spec :: "(nat \<Rightarrow> nat \<Rightarrow> nat \<Rightarrow> nat \<Rightarrow> real) \<Rightarrow> nat \<Rightarrow> nat \<Rightarrow> nat \<Rightarrow> nat \<Rightarrow> real" where
  "kl_spec l B N H W =
     5 / 10 ^ 4 *
     ((\<Sum>b\<leftarrow>[0..<B]. \<Sum>h\<leftarrow>[0..<H]. \<Sum>w\<leftarrow>[0..<W]. \<Sum>k\<leftarrow>[0..<N].
         softmax_spec (\<lambda>j. l b j h w) N k
         * ln (softmax_spec (\<lambda>j. l b j h w) N k * real N + 1 / 10 ^ 10))
      / real (B * H * W))"

definition one_hot :: "vec \<Rightarrow> nat \<Rightarrow> bool" where
  "one_hot v k = (k < length v \<and> v = (replicate (length v) 0)[k := 1])"

definition is_one_hot :: "vec \<Rightarrow> bool" where
  "is_one_hot v = list_ex (one_hot v) [0..<length v]"

section \<open>The model, its shapes and its optimizer\<close>

datatype layer =
    Conv2d nat nat nat nat nat
  | ConvTranspose2d nat nat nat nat nat
  | ReLU
  | ResBlock nat nat

datatype quantizer =
    VQVAEQuantize VQ_state
  | GumbelQuantize Gumbel_state

record vqvae =
  encoder :: "layer list"
  quantizer :: quantizer
  decoder :: "layer list"

record args =
  vq_flavor :: string

definition QuantizerModule ::
    "(string \<times> (initializers \<Rightarrow> nat \<Rightarrow> nat \<Rightarrow> nat \<Rightarrow> quantizer)) list" where
  "QuantizerModule =
     [(''vqvae'', \<lambda>ini num_hiddens embedding_dim n_embed.
                    VQVAEQuantize (VQVAEQuantize_init ini num_hiddens embedding_dim n_embed)),
      (''gumbel'', \<lambda>ini num_hiddens embedding_dim n_embed.
                     GumbelQuantize (GumbelQuantize_init ini num_hiddens embedding_dim n_embed None))]"

definition VQVAE_init ::
    "initializers \<Rightarrow> args \<Rightarrow> nat \<Rightarrow> nat \<Rightarrow> nat \<Rightarrow> nat \<Rightarrow> error + vqvae" where
  "VQVAE_init ini a num_hiddens num_residual_hiddens embedding_dim' num_embeddings =
     (let in_channel = 3 in
      case map_of QuantizerModule (vq_flavor a) of
        None \<Rightarrow> Inl KeyError
      | Some Q \<Rightarrow> Inr
          \<lparr> encoder =
              [Conv2d in_channel (num_hiddens div 2) 4 2 1,
               ReLU,
               Conv2d (num_hiddens div 2) num_hiddens 4 2 1,
               ReLU,
               Conv2d num_hiddens num_hiddens 3 1 1,
               ReLU,
               ResBlock num_hiddens num_residual_hiddens,
               ResBlock num_hiddens num_residual_hiddens],
            quantizer = Q ini num_hiddens embedding_dim' num_embeddings,
            decoder =
              [Conv2d embedding_dim' num_hiddens 3 1 1,
               ReLU,
               ResBlock num_hiddens num_residual_hiddens,
               ResBlock num_hiddens num_residual_hiddens,
               ConvTranspose2d num_hiddens (num_hiddens div 2) 4 2 1,
               ReLU,
               ConvTranspose2d (num_hiddens div 2) in_channel 4 2 1] \<rparr>)"

text \<open>Shapes. A convolution with kernel \<open>k\<close>, stride \<open>s\<close> and padding \<open>p\<close> maps a side
  \<open>n\<close> to \<open>(n + 2p - k) div s + 1\<close>, a transposed one to \<open>(n - 1) s - 2p + k\<close>. The
  library refuses a convolution whose weight has no input or no output channel, and an
  input whose channels are not the layer's.\<close>

type_synonym shape = "nat \<times> nat \<times> nat \<times> nat"

definition conv_out :: "nat \<Rightarrow> nat \<Rightarrow> nat \<Rightarrow> nat \<Rightarrow> nat option" where
  "conv_out n k s p =
     (if s = 0 \<or> n + 2 * p < k then None else Some ((n + 2 * p - k) div s + 1))"

definition convT_out :: "nat \<Rightarrow> nat \<Rightarrow> nat \<Rightarrow> nat \<Rightarrow> nat option" where
  "convT_out n k s p =
     (if s = 0 \<or> n = 0 \<or> (n - 1) * s + k \<le> 2 * p then None
      else Some ((n - 1) * s + k - 2 * p))"

definition Conv2d_shape :: "nat \<Rightarrow> nat \<Rightarrow> nat \<Rightarrow> nat \<Rightarrow> nat \<Rightarrow> shape \<Rightarrow> error + shape" where
  "Conv2d_shape cin cout k s p sh =
     (case sh of (B, C, H, W) \<Rightarrow>
        if C \<noteq> cin \<or> cin = 0 \<or> cout = 0 then Inl ShapeError
        else case (conv_out H k s p, conv_out W k s p) of
          (Some H', Some W') \<Rightarrow> Inr (B, cout, H', W')
        | _ \<Rightarrow> Inl ShapeError)"

definition ConvTranspose2d_shape ::
    "nat \<Rightarrow> nat \<Rightarrow> nat \<Rightarrow> nat \<Rightarrow> nat \<Rightarrow> shape \<Rightarrow> error + shape" where
  "ConvTranspose2d_shape cin cout k s p sh =
     (case sh of (B, C, H, W) \<Rightarrow>
        if C \<noteq> cin \<or> cin = 0 \<or> cout = 0 then Inl ShapeError
        else case (convT_out H k s p, convT_out W k s p) of
          (Some H', Some W') \<Rightarrow> Inr (B, cout, H', W')
        | _ \<Rightarrow> Inl ShapeError)"

definition ResBlock_shape :: "nat \<Rightarrow> nat \<Rightarrow> shape \<Rightarrow> error + shape" where
  "ResBlock_shape in_channel channel x =
     (case Conv2d_shape in_channel channel 3 1 1 x of
        Inl e \<Rightarrow> Inl e
      | Inr h \<Rightarrow>
          (case Conv2d_shape channel in_channel 1 1 0 h of
             Inl e \<Rightarrow> Inl e
           | Inr out \<Rightarrow> if out = x then Inr out else Inl ShapeError))"

fun layer_shape :: "layer \<Rightarrow> shape \<Rightarrow> error + shape" where
  "layer_shape (Conv2d cin cout k s p) sh = Conv2d_shape cin cout k s p sh"
| "layer_shape (ConvTranspose2d cin cout k s p) sh = ConvTranspose2d_shape cin cout k s p sh"
| "layer_shape ReLU sh = Inr sh"
| "layer_shape (ResBlock in_channel channel) sh = ResBlock_shape in_channel channel sh"

fun Sequential_shape :: "layer list \<Rightarrow> shape \<Rightarrow> error + shape" where
  "Sequential_shape [] sh = Inr sh"
| "Sequential_shape (l # ls) sh =
     (case layer_shape l sh of Inl e \<Rightarrow> Inl e | Inr sh' \<Rightarrow> Sequential_shape ls sh')"

text \<open>The quantizers. Both start with their 1x1 convolution \<^verbatim>\<open>proj\<close>. The nearest-neighbor
  one then seeds its codebook if it is in training mode with the flag unset: it hands
  k-means the first 20000 of the \<open>B H W\<close> permuted rows and asks for \<^verbatim>\<open>n_embed\<close> clusters,
  and k-means returns or raises. What k-means does with so many rows and clusters is the
  argument \<open>km\<close> (the exception it raises, if any). A maximum over no codebook entry is
  refused.\<close>

fun quantizer_shape ::
    "(nat \<Rightarrow> nat \<Rightarrow> error option) \<Rightarrow> quantizer \<Rightarrow> shape \<Rightarrow> error + shape" where
  "quantizer_shape km (VQVAEQuantize q) z =
     (case Conv2d_shape (proj_in_channels q) (embedding_dim q) 1 1 0 z of
        Inl e \<Rightarrow> Inl e
      | Inr (B, E, H, W) \<Rightarrow>
          (case (if training q \<and> data_initialized q = 0
                 then km (min (B * H * W) 20000) (n_embed q) else None) of
             Some e \<Rightarrow> Inl e
           | None \<Rightarrow> if n_embed q = 0 then Inl ShapeError else Inr (B, E, H, W)))"
| "quantizer_shape km (GumbelQuantize q) z =
     (case Conv2d_shape (proj_in_channels q) (n_embed q) 1 1 0 z of
        Inl e \<Rightarrow> Inl e
      | Inr (B, N, H, W) \<Rightarrow> Inr (B, embedding_dim q, H, W))"

text \<open>The library's k-means with \<^verbatim>\<open>minit='points'\<close> draws as many distinct rows as the
  clusters it is asked for: it raises \<^verbatim>\<open>ValueError\<close> when it is asked for no cluster or for
  more clusters than it has rows.\<close>

definition kmeans2_points :: "nat \<Rightarrow> nat \<Rightarrow> error option" where
  "kmeans2_points rows k = (if k = 0 \<or> rows < k then Some ValueError else None)"

definition VQVAE_forward_shape ::
    "(nat \<Rightarrow> nat \<Rightarrow> error option) \<Rightarrow> vqvae \<Rightarrow> shape \<Rightarrow> error + (shape \<times> shape \<times> shape)" where
  "VQVAE_forward_shape km m x =
     (case Sequential_shape (encoder m) x of
        Inl e \<Rightarrow> Inl e
      | Inr z \<Rightarrow>
          (case quantizer_shape km (quantizer m) z of
             Inl e \<Rightarrow> Inl e
           | Inr z_q \<Rightarrow>
               (case Sequential_shape (decoder m) z_q of
                  Inl e \<Rightarrow> Inl e
                | Inr x_hat \<Rightarrow> Inr (z, z_q, x_hat))))"

text \<open>\<^verbatim>\<open>train(mode)\<close> on the model sets the mode of its submodules; of the state modelled
  here only the quantizer's depends on it.\<close>

fun quantizer_train :: "bool \<Rightarrow> quantizer \<Rightarrow> quantizer" where
  "quantizer_train mode (VQVAEQuantize q) = VQVAEQuantize (q\<lparr> training := mode \<rparr>)"
| "quantizer_train mode (GumbelQuantize q) = GumbelQuantize (q\<lparr> training := mode \<rparr>)"

definition VQVAE_train :: "bool \<Rightarrow> vqvae \<Rightarrow> vqvae" where
  "VQVAE_train mode m = m\<lparr> quantizer := quantizer_train mode (quantizer m) \<rparr>"

text \<open>The module tree, as \<^verbatim>\<open>named_modules\<close> and \<^verbatim>\<open>named_parameters\<close> walk it: a module
  has a class, its own parameters' names and its named children.\<close>

datatype mkind =
    Linear_m | Conv2d_m | ConvTranspose2d_m | LayerNorm_m | BatchNorm2d_m | Embedding_m
  | ReLU_m | Sequential_m | ResBlock_m | VQVAEQuantize_m | GumbelQuantize_m | VQVAE_m

datatype module =
  Module (kind: mkind) (own_params: "string list") (children: "(string \<times> module) list")

definition join_name :: "string \<Rightarrow> string \<Rightarrow> string" where
  "join_name pre name = pre @ (if pre \<noteq> [] then ''.'' else []) @ name"

fun named_modules :: "string \<Rightarrow> module \<Rightarrow> (string \<times> module) list" where
  "named_modules pre (Module k ps cs) =
     (pre, Module k ps cs) #
     concat (map (\<lambda>(name, c). named_modules (join_name pre name) c) cs)"

definition named_parameters :: "module \<Rightarrow> string list" where
  "named_parameters m =
     concat (map (\<lambda>(module_prefix, md). map (join_name module_prefix) (own_params md))
                 (named_modules [] m))"

fun str_nat :: "nat \<Rightarrow> string" where
  "str_nat n =
     (if n < 10 then [''0123456789'' ! n]
      else str_nat (n div 10) @ [''0123456789'' ! (n mod 10)])"

definition Sequential_module :: "module list \<Rightarrow> module" where
  "Sequential_module ms = Module Sequential_m [] (zip (map str_nat [0..<length ms]) ms)"

definition Conv2d_module :: module where
  "Conv2d_module = Module Conv2d_m [''weight'', ''bias''] []"

definition Embedding_module :: module where
  "Embedding_module = Module Embedding_m [''weight''] []"

fun layer_module :: "layer \<Rightarrow> module" where
  "layer_module (Conv2d cin cout k s p) = Conv2d_module"
| "layer_module (ConvTranspose2d cin cout k s p) =
     Module ConvTranspose2d_m [''weight'', ''bias''] []"
| "layer_module ReLU = Module ReLU_m [] []"
| "layer_module (ResBlock in_channel channel) =
     Module ResBlock_m []
       [(''conv'', Sequential_module [Conv2d_module, Module ReLU_m [] [], Conv2d_module])]"

fun quantizer_module :: "quantizer \<Rightarrow> module" where
  "quantizer_module (VQVAEQuantize q) =
     Module VQVAEQuantize_m [] [(''proj'', Conv2d_module), (''embed'', Embedding_module)]"
| "quantizer_module (GumbelQuantize q) =
     Module GumbelQuantize_m [] [(''proj'', Conv2d_module), (''embed'', Embedding_module)]"

definition VQVAE_module :: "vqvae \<Rightarrow> module" where
  "VQVAE_module m =
     Module VQVAE_m []
       [(''encoder'', Sequential_module (map layer_module (encoder m))),
        (''quantizer'', quantizer_module (quantizer m)),
        (''decoder'', Sequential_module (map layer_module (decoder m)))]"

definition endswith :: "string \<Rightarrow> string \<Rightarrow> bool" where
  "endswith s suf = suffix suf s"

definition whitelist_weight_modules :: "mkind list" where
  "whitelist_weight_modules = [Linear_m, Conv2d_m, ConvTranspose2d_m]"

definition blacklist_weight_modules :: "mkind list" where
  "blacklist_weight_modules = [LayerNorm_m, BatchNorm2d_m, Embedding_m]"

definition isinstance :: "module \<Rightarrow> mkind list \<Rightarrow> bool" where
  "isinstance m ks = (kind m \<in> set ks)"

definition full_name :: "string \<Rightarrow> string \<Rightarrow> string" where
  "full_name mn pn = (if mn \<noteq> [] then mn @ ''.'' @ pn else pn)"

definition sort_param ::
    "string \<Rightarrow> module \<Rightarrow> string \<Rightarrow> string set \<times> string set \<Rightarrow> string set \<times> string set" where
  "sort_param mn m pn acc =
     (case acc of (decay, no_decay) \<Rightarrow>
        let fpn = full_name mn pn in
        if endswith pn ''bias'' then (decay, insert fpn no_decay)
        else if endswith pn ''weight'' \<and> isinstance m whitelist_weight_modules
          then (insert fpn decay, no_decay)
        else if endswith pn ''weight'' \<and> isinstance m blacklist_weight_modules
          then (decay, insert fpn no_decay)
        else (decay, no_decay))"

definition separate_params :: "module \<Rightarrow> string set \<times> string set" where
  "separate_params net =
     fold (\<lambda>(mn, m). fold (sort_param mn m) (named_parameters m))
          (named_modules [] net) ({}, {})"

text \<open>The optimizer is kept as its two parameter groups, each the set of names the
  source sorts and looks up in \<^verbatim>\<open>param_dict\<close>; the lookup of a name that is not a
  key raises.\<close>

definition configure_optimizers :: "module \<Rightarrow> error + (string set \<times> string set)" where
  "configure_optimizers net =
     (case separate_params net of (decay, no_decay) \<Rightarrow>
        let param_dict = set (named_parameters net);
            inter_params = decay \<inter> no_decay;
            union_params = decay \<union> no_decay in
        if inter_params \<noteq> {} then Inl AssertionError
        else if param_dict - union_params \<noteq> {} then Inl AssertionError
        else if \<not> union_params \<subseteq> param_dict then Inl KeyError
        else Inr (decay, no_decay))"

text \<open>Which set the loop of \<^verbatim>\<open>configure_optimizers\<close> puts a parameter into.\<close>

definition to_decay :: "module \<Rightarrow> string \<Rightarrow> bool" where
  "to_decay m pn =
     (\<not> endswith pn ''bias'' \<and> endswith pn ''weight'' \<and> isinstance m whitelist_weight_modules)"

definition to_no_decay :: "module \<Rightarrow> string \<Rightarrow> bool" where
  "to_no_decay m pn =
     (endswith pn ''bias'' \<or>
      (\<not> isinstance m whitelist_weight_modules \<and> endswith pn ''weight'' \<and>
       isinstance m blacklist_weight_modules))"

text \<open>The library refuses an empty child name; a prefix and a relative name compose.\<close>

fun wf_module :: "module \<Rightarrow> bool" where
  "wf_module (Module k ps cs) = list_all (\<lambda>(name, c). name \<noteq> [] \<and> wf_module c) cs"

definition sub_name :: "string \<Rightarrow> string \<Rightarrow> string" where
  "sub_name pre q = (if q = [] then pre else join_name pre q)"

text \<open>Names for what a forward call of the nearest-neighbor quantizer computes: the
  projected vectors in channel-last layout, the index of the nearest codebook entry, the
  three results, and the entries of the gathered codebook vectors and of the projection.\<close>

definition z_e_of :: "VQ_state \<Rightarrow> tensor4 \<Rightarrow> tensor4" where
  "z_e_of self z = permute_0231 (Conv2d_1x1 (proj_weight self) (proj_bias self) z)"

text \<open>The rows a forward call hands to k-means when it seeds, and what k-means answers.\<close>

definition seed_sample :: "externals \<Rightarrow> VQ_state \<Rightarrow> tensor4 \<Rightarrow> mat" where
  "seed_sample rnd self z =
     (let flatten = reshape_rows (embedding_dim self) (z_e_of self z);
          rp = randperm rnd (length flatten)
      in map (\<lambda>i. flatten ! i) (take 20000 rp))"

definition kmeans_result :: "externals \<Rightarrow> VQ_state \<Rightarrow> tensor4 \<Rightarrow> error + mat" where
  "kmeans_result rnd self z = kmeans2 rnd (seed_sample rnd self z) (n_embed self)"


text \<open>A well-shaped call: the shapes fit, and k-means returns if the call seeds.\<close>

definition well_shaped ::
    "externals \<Rightarrow> VQ_state \<Rightarrow> tensor4 \<Rightarrow> nat \<Rightarrow> nat \<Rightarrow> nat \<Rightarrow> nat \<Rightarrow> bool" where
  "well_shaped rnd self z B C H W =
     (is_tensor4 z B C H W \<and> 0 < B \<and> 0 < C \<and> 0 < H \<and> 0 < W \<and>
      0 < embedding_dim self \<and> 0 < n_embed self \<and>
      proj_in_channels self = C \<and>
      is_mat (proj_weight self) (embedding_dim self) C \<and>
      length (proj_bias self) = embedding_dim self \<and>
      is_mat (codebook rnd self z) (n_embed self) (embedding_dim self) \<and>
      (training self \<and> data_initialized self = 0 \<longrightarrow> \<not> isl (kmeans_result rnd self z)))"

definition nearest :: "mat \<Rightarrow> vec \<Rightarrow> nat" where
  "nearest weight r = argmax (map (\<lambda>c. - sqdist r c) weight)"

definition forward_z_q :: "externals \<Rightarrow> VQ_state \<Rightarrow> tensor4 \<Rightarrow> tensor4" where
  "forward_z_q rnd self z = fst (projr (snd (VQVAEQuantize_forward rnd self z)))"

definition forward_diff :: "externals \<Rightarrow> VQ_state \<Rightarrow> tensor4 \<Rightarrow> real" where
  "forward_diff rnd self z = fst (snd (projr (snd (VQVAEQuantize_forward rnd self z))))"

definition forward_ind :: "externals \<Rightarrow> VQ_state \<Rightarrow> tensor4 \<Rightarrow> nat list list list" where
  "forward_ind rnd self z = snd (snd (projr (snd (VQVAEQuantize_forward rnd self z))))"

definition gathered :: "externals \<Rightarrow> VQ_state \<Rightarrow> tensor4 \<Rightarrow> nat \<Rightarrow> nat \<Rightarrow> nat \<Rightarrow> nat \<Rightarrow> real" where
  "gathered rnd self z b h w e = codebook rnd self z ! (forward_ind rnd self z ! b ! h ! w) ! e"

definition projected_at :: "VQ_state \<Rightarrow> tensor4 \<Rightarrow> nat \<Rightarrow> nat \<Rightarrow> nat \<Rightarrow> nat \<Rightarrow> real" where
  "projected_at self z b h w e = Conv2d_1x1 (proj_weight self) (proj_bias self) z ! b ! e ! h ! w"

text \<open>The same for the Gumbel-softmax quantizer: its logits, the shapes a forward call
  needs, and the loss it returns.\<close>

definition logits_of :: "Gumbel_state \<Rightarrow> tensor4 \<Rightarrow> tensor4" where
  "logits_of self z = Conv2d_1x1 (proj_weight self) (proj_bias self) z"

definition logits_shaped :: "Gumbel_state \<Rightarrow> tensor4 \<Rightarrow> nat \<Rightarrow> nat \<Rightarrow> nat \<Rightarrow> nat \<Rightarrow> bool" where
  "logits_shaped self z B C H W =
     (is_tensor4 z B C H W \<and> 0 < B \<and> 0 < C \<and> 0 < H \<and> 0 < W \<and> 0 < n_embed self \<and>
      proj_in_channels self = C \<and>
      is_mat (proj_weight self) (n_embed self) C \<and>
      length (proj_bias self) = n_embed self)"

definition Gumbel_diff :: "tensor4 \<Rightarrow> Gumbel_state \<Rightarrow> tensor4 \<Rightarrow> real" where
  "Gumbel_diff gumbels self z = fst (snd (GumbelQuantize_forward gumbels self z))"

text \<open>The perplexity diagnostic of \<^verbatim>\<open>validation_step\<close>: the one-hot encodings of the
  index grid, their mean over the locations, and the exponential of the entropy with the
  floor inside the logarithm.\<close>

definition one_hot_rows :: "nat list list list \<Rightarrow> nat \<Rightarrow> mat" where
  "one_hot_rows ind n =
     map (\<lambda>i. map (\<lambda>k. if k = i then 1 else 0) [0..<n]) (concat (concat ind))"

definition mean_dim0 :: "mat \<Rightarrow> vec" where
  "mean_dim0 A = map (\<lambda>k. sum_list (map (\<lambda>r. r ! k) A) / real (length A)) [0..<length (hd A)]"

definition perplexity_of :: "vec \<Rightarrow> real" where
  "perplexity_of avg_probs = exp (- sum_list (map (\<lambda>p. p * ln (p + 1 / 10 ^ 10)) avg_probs))"

definition perplexity :: "nat list list list \<Rightarrow> nat \<Rightarrow> real" where
  "perplexity ind n =
     (let encodings = one_hot_rows ind n;
          avg_probs = mean_dim0 encodings
      in perplexity_of avg_probs)"

section \<open>Example data\<close>

text \<open>Small inputs on which the theorems below are instantiated: a quantizer with one input
  channel, a one-dimensional codebook of two entries, and feature grids of one row; a module
  tree with a naming collision; the models the constructor builds with its default sizes.\<close>

definition ini0 :: initializers where
  "ini0 = \<lparr> init_weight = (\<lambda>n m. replicate n (replicate m 0)), init_bias = (\<lambda>n. replicate n 0) \<rparr>"


definition self0 :: VQ_state where
  "self0 = \<lparr> training = True, embedding_dim = 1, n_embed = 2, proj_in_channels = 1,
             proj_weight = [[1]], proj_bias = [0], embed_weight = [[1], [4]],
             data_initialized = 0, stdout = [] \<rparr>"

definition rnd0 :: externals where
  "rnd0 = \<lparr> randperm = (\<lambda>n. rev [0..<n]),
             kmeans2 = (\<lambda>X k. if length X < k then Inl ValueError else Inr (take k X)) \<rparr>"


definition net0 :: module where
  "net0 = Module Linear_m [''weight'', ''bias''] [(''emb'', Embedding_module)]"

definition self1 :: VQ_state where
  "self1 = self0\<lparr> training := False \<rparr>"

definition z1 :: tensor4 where
  "z1 = [[[[0, 3, 5 / 2]]]]"

definition gself0 :: Gumbel_state where
  "gself0 = \<lparr> training = False, embedding_dim = 1, n_embed = 2, proj_in_channels = 1,
              proj_weight = [[0], [0]], proj_bias = [0, 0], embed_weight = [[1], [4]],
              straight_through = False, temperature = 1 \<rparr>"

definition zg :: tensor4 where
  "zg = [[[[0]]]]"

definition g0 :: tensor4 where
  "g0 = [[[[0]], [[0]]]]"

definition model_vqvae :: vqvae where
  "model_vqvae = projr (VQVAE_init ini0 \<lparr>vq_flavor = ''vqvae''\<rparr> 128 32 64 512)"

definition model_gumbel :: vqvae where
  "model_gumbel = projr (VQVAE_init ini0 \<lparr>vq_flavor = ''gumbel''\<rparr> 128 32 64 512)"

section \<open>Shapes of the forward pass\<close>

lemma conv_out_4_2_1: "0 < n \<Longrightarrow> even n \<Longrightarrow> conv_out n 4 2 (Suc 0) = Some (n div 2)"
  by (auto simp: conv_out_def elim!: evenE)

lemma conv_out_3_1_1: "0 < n \<Longrightarrow> conv_out n 3 (Suc 0) (Suc 0) = Some n"
  by (auto simp: conv_out_def)

lemma conv_out_1_1_0: "0 < n \<Longrightarrow> conv_out n (Suc 0) (Suc 0) 0 = Some n"
  by (auto simp: conv_out_def)

lemma convT_out_4_2_1: "0 < n \<Longrightarrow> convT_out n 4 2 (Suc 0) = Some (2 * n)"
  by (auto simp: convT_out_def)

lemma ResBlock_shape_same:
  "0 < H \<Longrightarrow> 0 < W \<Longrightarrow> 0 < c \<Longrightarrow> 0 < r \<Longrightarrow>
   ResBlock_shape c r (B, c, H, W) = Inr (B, c, H, W)"
  by (simp add: ResBlock_shape_def Conv2d_shape_def conv_out_3_1_1 conv_out_1_1_0)

lemma encoder_shape:
  assumes "0 < h" "0 < w" "2 \<le> nh" "0 < nrh"
  shows "Sequential_shape
           [Conv2d 3 (nh div 2) 4 2 (Suc 0), ReLU, Conv2d (nh div 2) nh 4 2 (Suc 0), ReLU,
            Conv2d nh nh 3 (Suc 0) (Suc 0), ReLU, ResBlock nh nrh, ResBlock nh nrh]
           (B, 3, 4 * h, 4 * w)
         = Inr (B, nh, h, w)"
proof -
  have e: "conv_out (4 * h) 4 2 (Suc 0) = Some (2 * h)"
          "conv_out (4 * w) 4 2 (Suc 0) = Some (2 * w)"
          "conv_out (2 * h) 4 2 (Suc 0) = Some h"
          "conv_out (2 * w) 4 2 (Suc 0) = Some w"
    using assms by (simp_all add: conv_out_4_2_1)
  have c: "0 < nh div 2" "0 < nh" using assms(3) by (simp_all add: div_greater_zero_iff)
  show ?thesis
    using assms c by (simp add: Conv2d_shape_def e conv_out_3_1_1 ResBlock_shape_same)
qed

lemma decoder_shape:
  assumes "0 < h" "0 < w" "2 \<le> nh" "0 < nrh" "0 < ed"
  shows "Sequential_shape
           [Conv2d ed nh 3 (Suc 0) (Suc 0), ReLU, ResBlock nh nrh, ResBlock nh nrh,
            ConvTranspose2d nh (nh div 2) 4 2 (Suc 0), ReLU,
            ConvTranspose2d (nh div 2) 3 4 2 (Suc 0)] (B, ed, h, w)
         = Inr (B, 3, 4 * h, 4 * w)"
proof -
  have c: "0 < nh div 2" "0 < nh" using assms(3) by (simp_all add: div_greater_zero_iff)
  show ?thesis
    using assms c
    by (simp add: Conv2d_shape_def ConvTranspose2d_shape_def conv_out_3_1_1 ResBlock_shape_same
          convT_out_4_2_1)
qed

lemma proj_shape:
  "0 < h \<Longrightarrow> 0 < w \<Longrightarrow> 0 < c \<Longrightarrow> 0 < d \<Longrightarrow>
   Conv2d_shape c d (Suc 0) (Suc 0) 0 (B, c, h, w) = Inr (B, d, h, w)"
  by (simp add: Conv2d_shape_def conv_out_1_1_0)

lemma VQVAEQuantize_shape:
  assumes "0 < h" "0 < w" "0 < proj_in_channels q" "0 < embedding_dim q" "0 < n_embed q"
  shows "quantizer_shape km (VQVAEQuantize q) (B, proj_in_channels q, h, w) =
           (case (if training q \<and> data_initialized q = 0
                  then km (min (B * h * w) 20000) (n_embed q) else None) of
              Some e \<Rightarrow> Inl e
            | None \<Rightarrow> Inr (B, embedding_dim q, h, w))"
  using assms by (simp add: proj_shape split: option.splits)

lemma GumbelQuantize_shape:
  assumes "0 < h" "0 < w" "0 < proj_in_channels q" "0 < n_embed q"
  shows "quantizer_shape km (GumbelQuantize q) (B, proj_in_channels q, h, w) =
           Inr (B, embedding_dim q, h, w)"
  using assms by (simp add: proj_shape)

text \<open>The claim as the specification states it fails on a new model of the nearest-neighbor
  flavor: with the default sizes (512 codebook entries) an input of shape \<open>[1, 3, 4, 4]\<close>
  gives the quantizer one feature vector, the first forward call seeds, and the library's
  k-means raises.\<close>

theorem VQVAE_round_trip_shape_counterexample:
  "VQVAE_init ini0 \<lparr>vq_flavor = ''vqvae''\<rparr> 128 32 64 512 = Inr model_vqvae \<and>
   (4::nat) dvd 4 \<and>
   VQVAE_forward_shape kmeans2_points model_vqvae (1, 3, 4, 4) = Inl ValueError"
  by code_simp

text \<open>
  Claim C9, amended. For an input of shape \<open>[B, 3, H, W]\<close> with \<open>H\<close> and \<open>W\<close> positive and
  divisible by 4, either quantizer flavor and sizes that leave every layer a channel
  (\<open>num_hiddens\<close> at least 2, the others positive), the model is constructed, and its forward
  pass gives the encoder's grid the shape \<open>[B, num_hiddens, H/4, W/4]\<close>, the quantized grid
  the shape \<open>[B, embedding_dim, H/4, W/4]\<close> and the reconstruction the shape
  \<open>[B, 3, H, W]\<close>, with one exception: the new model of the nearest-neighbor flavor, which is
  in training mode with the flag unset, seeds its codebook in the call, and the call raises
  what k-means raises when k-means, handed \<open>min (B (H/4) (W/4)) 20000\<close> feature vectors and
  asked for \<open>num_embeddings\<close> clusters, raises; the library's k-means does when the vectors
  are fewer than \<open>num_embeddings\<close>. In evaluation mode, and once the flag is set, the shapes
  are produced whatever k-means would do.
\<close>

theorem VQVAE_round_trip_shape:
  assumes "vq_flavor a = ''vqvae'' \<or> vq_flavor a = ''gumbel''"
    and "0 < H" "0 < W" "4 dvd H" "4 dvd W"
    and "2 \<le> nh" "0 < nrh" "0 < ed" "0 < ne"
  shows "\<exists>m. VQVAE_init ini a nh nrh ed ne = Inr m \<and>
             VQVAE_forward_shape km m (B, 3, H, W) =
               (case (if vq_flavor a = ''vqvae''
                      then km (min (B * (H div 4) * (W div 4)) 20000) ne else None) of
                  Some e \<Rightarrow> Inl e
                | None \<Rightarrow>
                    Inr ((B, nh, H div 4, W div 4), (B, ed, H div 4, W div 4), (B, 3, H, W))) \<and>
             VQVAE_forward_shape km (VQVAE_train False m) (B, 3, H, W) =
               Inr ((B, nh, H div 4, W div 4), (B, ed, H div 4, W div 4), (B, 3, H, W)) \<and>
             (\<forall>q. quantizer m = VQVAEQuantize q \<longrightarrow>
                VQVAE_forward_shape km
                    (m\<lparr>quantizer := VQVAEQuantize (q\<lparr>data_initialized := 1\<rparr>)\<rparr>) (B, 3, H, W) =
                  Inr ((B, nh, H div 4, W div 4), (B, ed, H div 4, W div 4), (B, 3, H, W)))"
proof -
  from assms obtain h w where hw: "H = 4 * h" "W = 4 * w" "0 < h" "0 < w"
    by (auto elim!: dvdE)
  have nh: "0 < nh" using assms(6) by simp
  note enc = encoder_shape [OF hw(3,4) assms(6,7), of B]
  note dec = decoder_shape [OF hw(3,4) assms(6,7,8), of B]
  from assms(1) show ?thesis
  proof
    assume f: "vq_flavor a = ''vqvae''"
    let ?q = "VQVAEQuantize_init ini nh ed ne"
    have q: "proj_in_channels ?q = nh" "embedding_dim ?q = ed" "n_embed ?q = ne"
      "training ?q" "data_initialized ?q = 0"
      by (simp_all add: VQVAEQuantize_init_def)
    have s: "quantizer_shape km (VQVAEQuantize s) (B, nh, h, w) =
               (case (if training s \<and> data_initialized s = 0
                      then km (min (B * h * w) 20000) ne else None) of
                  Some e \<Rightarrow> Inl e
                | None \<Rightarrow> Inr (B, ed, h, w))"
      if "proj_in_channels s = nh" "embedding_dim s = ed" "n_embed s = ne" for s
    proof -
      have "quantizer_shape km (VQVAEQuantize s) (B, proj_in_channels s, h, w) =
              (case (if training s \<and> data_initialized s = 0
                     then km (min (B * h * w) 20000) (n_embed s) else None) of
                 Some e \<Rightarrow> Inl e
               | None \<Rightarrow> Inr (B, embedding_dim s, h, w))"
        using hw(3,4) nh assms(8,9) that by (intro VQVAEQuantize_shape) simp_all
      then show ?thesis unfolding that .
    qed
    have 1: "quantizer_shape km (VQVAEQuantize ?q) (B, nh, h, w) =
               (case km (min (B * h * w) 20000) ne of
                  Some e \<Rightarrow> Inl e
                | None \<Rightarrow> Inr (B, ed, h, w))"
      using s [of ?q] q by simp
    have 2: "quantizer_shape km (VQVAEQuantize (?q\<lparr>training := False\<rparr>)) (B, nh, h, w) =
               Inr (B, ed, h, w)"
      using s [of "?q\<lparr>training := False\<rparr>"] q by simp
    have 3: "quantizer_shape km (VQVAEQuantize (?q\<lparr>data_initialized := 1\<rparr>)) (B, nh, h, w) =
               Inr (B, ed, h, w)"
      using s [of "?q\<lparr>data_initialized := 1\<rparr>"] q by simp
    show ?thesis
      using f hw
      by (simp add: VQVAE_init_def QuantizerModule_def VQVAE_forward_shape_def VQVAE_train_def
            enc dec 1 2 3 del: Sequential_shape.simps quantizer_shape.simps
            split: option.splits)
  next
    assume f: "vq_flavor a = ''gumbel''"
    let ?q = "GumbelQuantize_init ini nh ed ne None"
    have q: "proj_in_channels ?q = nh" "embedding_dim ?q = ed" "n_embed ?q = ne"
      by (simp_all add: GumbelQuantize_init_def)
    have s: "quantizer_shape km (GumbelQuantize s) (B, nh, h, w) = Inr (B, ed, h, w)"
      if "proj_in_channels s = nh" "embedding_dim s = ed" "n_embed s = ne" for s
    proof -
      have "quantizer_shape km (GumbelQuantize s) (B, proj_in_channels s, h, w) =
              Inr (B, embedding_dim s, h, w)"
        using hw(3,4) nh assms(9) that by (intro GumbelQuantize_shape) simp_all
      then show ?thesis unfolding that .
    qed
    note 1 = s [of ?q, OF q]
    have 2: "quantizer_shape km (GumbelQuantize (?q\<lparr>training := False\<rparr>)) (B, nh, h, w) =
               Inr (B, ed, h, w)"
      using s [of "?q\<lparr>training := False\<rparr>"] q by simp
    show ?thesis
      using f hw
      by (simp add: VQVAE_init_def QuantizerModule_def VQVAE_forward_shape_def VQVAE_train_def
            enc dec 1 2 del: Sequential_shape.simps quantizer_shape.simps)
  qed
qed

theorem VQVAE_round_trip_shape_witness:
  "(\<exists>m. VQVAE_init ini0 \<lparr>vq_flavor = ''vqvae''\<rparr> 128 32 64 512 = Inr m \<and>
        VQVAE_forward_shape kmeans2_points m (16, 3, 32, 32) =
          Inr ((16, 128, 8, 8), (16, 64, 8, 8), (16, 3, 32, 32)) \<and>
        VQVAE_forward_shape kmeans2_points m (1, 3, 32, 32) = Inl ValueError \<and>
        VQVAE_forward_shape kmeans2_points (VQVAE_train False m) (1, 3, 32, 32) =
          Inr ((1, 128, 8, 8), (1, 64, 8, 8), (1, 3, 32, 32))) \<and>
   (\<exists>m. VQVAE_init ini0 \<lparr>vq_flavor = ''gumbel''\<rparr> 128 32 64 512 = Inr m \<and>
        VQVAE_forward_shape kmeans2_points m (1, 3, 32, 32) =
          Inr ((1, 128, 8, 8), (1, 64, 8, 8), (1, 3, 32, 32)))"
  using VQVAE_round_trip_shape [where a = "\<lparr>vq_flavor = ''vqvae''\<rparr>" and H = 32 and W = 32
          and nh = 128 and nrh = 32 and ed = 64 and ne = 512 and ini = ini0 and B = 16
          and km = kmeans2_points]
    VQVAE_round_trip_shape [where a = "\<lparr>vq_flavor = ''vqvae''\<rparr>" and H = 32 and W = 32
          and nh = 128 and nrh = 32 and ed = 64 and ne = 512 and ini = ini0 and B = 1
          and km = kmeans2_points]
    VQVAE_round_trip_shape [where a = "\<lparr>vq_flavor = ''gumbel''\<rparr>" and H = 32 and W = 32
          and nh = 128 and nrh = 32 and ed = 64 and ne = 512 and ini = ini0 and B = 1
          and km = kmeans2_points]
  by (auto simp: kmeans2_points_def)

section \<open>The quantizer the constructor builds\<close>

text \<open>
  Claim C10. With the flavor \<open>gumbel\<close> the constructor builds the Gumbel-softmax quantizer
  from \<open>num_hiddens\<close>, \<open>embedding_dim\<close> and \<open>num_embeddings\<close> only, so its
  \<open>straight_through\<close> flag is the default \<open>True\<close>; no model the constructor returns
  holds a Gumbel-softmax quantizer whose flag is \<open>False\<close>.
\<close>

theorem gumbel_default:
  "(vq_flavor a = ''gumbel'' \<longrightarrow>
      (\<exists>m. VQVAE_init ini a nh nrh ed ne = Inr m \<and>
           quantizer m = GumbelQuantize (GumbelQuantize_init ini nh ed ne None) \<and>
           straight_through (GumbelQuantize_init ini nh ed ne None))) \<and>
   (\<forall>m g. VQVAE_init ini a nh nrh ed ne = Inr m \<and> quantizer m = GumbelQuantize g
      \<longrightarrow> straight_through g)"
proof (intro conjI impI allI)
  assume "vq_flavor a = ''gumbel''"
  then show "\<exists>m. VQVAE_init ini a nh nrh ed ne = Inr m \<and>
           quantizer m = GumbelQuantize (GumbelQuantize_init ini nh ed ne None) \<and>
           straight_through (GumbelQuantize_init ini nh ed ne None)"
    by (simp add: VQVAE_init_def QuantizerModule_def GumbelQuantize_init_def)
next
  fix m g
  assume h: "VQVAE_init ini a nh nrh ed ne = Inr m \<and> quantizer m = GumbelQuantize g"
  then have "vq_flavor a = ''vqvae'' \<or> vq_flavor a = ''gumbel''"
    by (auto simp: VQVAE_init_def QuantizerModule_def split: if_splits)
  then show "straight_through g"
  proof
    assume "vq_flavor a = ''vqvae''"
    with h show ?thesis by (auto simp: VQVAE_init_def QuantizerModule_def)
  next
    assume "vq_flavor a = ''gumbel''"
    with h show ?thesis
      by (auto simp: VQVAE_init_def QuantizerModule_def GumbelQuantize_init_def)
  qed
qed

theorem gumbel_default_witness:
  "vq_flavor \<lparr>vq_flavor = ''gumbel''\<rparr> = ''gumbel'' \<and>
   (\<exists>m. VQVAE_init ini0 \<lparr>vq_flavor = ''gumbel''\<rparr> 128 32 64 512 = Inr m \<and>
        quantizer m = GumbelQuantize (GumbelQuantize_init ini0 128 64 512 None) \<and>
        straight_through (GumbelQuantize_init ini0 128 64 512 None))"
  using gumbel_default [of "\<lparr>vq_flavor = ''gumbel''\<rparr>" ini0 128 32 64 512] by simp

section \<open>One-time seeding of the codebook\<close>

lemma fst_forward:
  "fst (VQVAEQuantize_forward rnd self z) =
     fst (seed_codebook rnd self (reshape_rows (embedding_dim self) (z_e_of self z)))"
  by (simp add: VQVAEQuantize_forward_def z_e_of_def Let_def split: prod.splits option.splits)

lemma seed_skip:
  "\<not> training self \<or> data_initialized self \<noteq> 0 \<Longrightarrow> seed_codebook rnd self X = (self, None)"
  by (auto simp: seed_codebook_def)

lemma seed_sample_eq:
  "map (\<lambda>i. reshape_rows (embedding_dim self) (z_e_of self z) ! i)
       (take 20000 (randperm rnd (length (reshape_rows (embedding_dim self) (z_e_of self z)))))
   = seed_sample rnd self z"
  by (simp add: seed_sample_def Let_def)

lemma seed_returns:
  assumes "training self" "data_initialized self = 0" "kmeans_result rnd self z = Inr kd"
  shows "seed_codebook rnd self (reshape_rows (embedding_dim self) (z_e_of self z)) =
           (self\<lparr> stdout := stdout self @ [''running kmeans!!''],
                   embed_weight := kd, data_initialized := 1 \<rparr>, None)"
  using assms by (simp add: seed_codebook_def Let_def seed_sample_eq kmeans_result_def)























section \<open>The weight-decay partition\<close>

lemma sort_param_sets:
  "sort_param mn m pn (D, N) =
     (D \<union> (if to_decay m pn then {full_name mn pn} else {}),
      N \<union> (if to_no_decay m pn then {full_name mn pn} else {}))"
  by (auto simp: sort_param_def to_decay_def to_no_decay_def Let_def)

lemma fold_sort_param:
  "fold (sort_param mn m) pns (D, N) =
     (D \<union> {full_name mn pn | pn. pn \<in> set pns \<and> to_decay m pn},
      N \<union> {full_name mn pn | pn. pn \<in> set pns \<and> to_no_decay m pn})"
proof (induction pns arbitrary: D N)
  case Nil
  then show ?case by simp
next
  case (Cons pn pns)
  show ?case
    unfolding fold_simps sort_param_sets Cons.IH
    by auto
qed

lemma fold_modules:
  "fold (\<lambda>(mn, m). fold (sort_param mn m) (named_parameters m)) ms (D, N) =
     (D \<union> {full_name mn pn | mn m pn.
             (mn, m) \<in> set ms \<and> pn \<in> set (named_parameters m) \<and> to_decay m pn},
      N \<union> {full_name mn pn | mn m pn.
             (mn, m) \<in> set ms \<and> pn \<in> set (named_parameters m) \<and> to_no_decay m pn})"
proof (induction ms arbitrary: D N)
  case Nil
  then show ?case by simp
next
  case (Cons x ms)
  obtain mn m where x: "x = (mn, m)" by (cases x)
  show ?case
    unfolding x fold_simps prod.case fold_sort_param Cons.IH
    by auto
qed

lemma separate_params_sets:
  "separate_params net =
     ({full_name mn pn | mn m pn.
         (mn, m) \<in> set (named_modules [] net) \<and> pn \<in> set (named_parameters m) \<and> to_decay m pn},
      {full_name mn pn | mn m pn.
         (mn, m) \<in> set (named_modules [] net) \<and> pn \<in> set (named_parameters m) \<and> to_no_decay m pn})"
  unfolding separate_params_def fold_modules by simp

lemma not_bias_and_weight: "endswith pn ''weight'' \<Longrightarrow> \<not> endswith pn ''bias''"
  by (auto simp: endswith_def suffix_def)

lemma not_white_and_black:
  "isinstance m blacklist_weight_modules \<Longrightarrow> \<not> isinstance m whitelist_weight_modules"
  by (auto simp: isinstance_def whitelist_weight_modules_def blacklist_weight_modules_def)

lemma sub_name_Nil [simp]: "sub_name [] q = q" "sub_name pre [] = pre"
  by (simp_all add: sub_name_def join_name_def)

lemma join_name_Nil [simp]: "join_name [] n = n"
  by (simp add: join_name_def)

lemma join_name_eq_Nil [simp]: "join_name pre n = [] \<longleftrightarrow> pre = [] \<and> n = []"
  by (simp add: join_name_def)

lemma join_name_assoc:
  "b \<noteq> [] \<Longrightarrow> join_name (join_name a b) c = join_name a (join_name b c)"
  by (simp add: join_name_def)

lemma sub_name_assoc:
  "sub_name (sub_name a b) c = sub_name a (sub_name b c)"
  by (auto simp: sub_name_def join_name_assoc)

lemma sub_name_join:
  "n \<noteq> [] \<Longrightarrow> sub_name (join_name a n) q = sub_name a (sub_name n q)"
  by (auto simp: sub_name_def join_name_assoc)

lemma join_sub_name: "join_name (sub_name a b) k = join_name a (join_name b k)"
  by (auto simp: sub_name_def join_name_assoc)

lemma full_name_join: "full_name mn pn = join_name mn pn"
  by (simp add: full_name_def join_name_def)

lemma named_modules_prefix:
  "wf_module m \<Longrightarrow>
   named_modules pre m = map (\<lambda>(q, md). (sub_name pre q, md)) (named_modules [] m)"
proof (induction m arbitrary: pre)
  case (Module k ps cs)
  have "named_modules (join_name pre name) c =
          map (\<lambda>(q, md). (sub_name pre q, md)) (named_modules name c)"
    if "(name, c) \<in> set cs" for name c
  proof -
    from that Module.prems have ne: "name \<noteq> []" and wf: "wf_module c"
      by (auto simp: list_all_iff)
    have c: "c \<in> Basic_BNFs.snds (name, c)" by simp
    have "named_modules (join_name pre name) c =
            map (\<lambda>(q, md). (sub_name (join_name pre name) q, md)) (named_modules [] c)"
      using Module.IH [OF that c wf] .
    also have "\<dots> = map (\<lambda>(q, md). (sub_name pre (sub_name name q), md)) (named_modules [] c)"
      by (simp add: sub_name_join ne)
    also have "\<dots> = map (\<lambda>(q, md). (sub_name pre q, md))
                       (map (\<lambda>(q, md). (sub_name name q, md)) (named_modules [] c))"
      by (simp add: case_prod_beta comp_def)
    also have "\<dots> = map (\<lambda>(q, md). (sub_name pre q, md)) (named_modules name c)"
      using Module.IH [OF that c wf, of name] by simp
    finally show ?thesis .
  qed
  then have eq: "map (\<lambda>(name, c). named_modules (join_name pre name) c) cs =
             map (\<lambda>(name, c). map (\<lambda>(q, md). (sub_name pre q, md)) (named_modules name c)) cs"
    by (intro map_cong) auto
  have "named_modules pre (Module k ps cs) =
          (pre, Module k ps cs) #
          concat (map (\<lambda>(name, c). map (\<lambda>(q, md). (sub_name pre q, md)) (named_modules name c)) cs)"
    by (simp only: named_modules.simps eq)
  also have "\<dots> = map (\<lambda>(q, md). (sub_name pre q, md)) (named_modules [] (Module k ps cs))"
    by (simp add: map_concat comp_def split_def)
  finally show ?case .
qed

lemma named_modules_trans:
  "wf_module m \<Longrightarrow> (a, x) \<in> set (named_modules [] m) \<Longrightarrow> (b, y) \<in> set (named_modules [] x) \<Longrightarrow>
   (sub_name a b, y) \<in> set (named_modules [] m)"
proof (induction m arbitrary: a)
  case (Module k ps cs)
  from Module.prems(2) consider "a = []" "x = Module k ps cs"
    | name c where "(name, c) \<in> set cs" "(a, x) \<in> set (named_modules name c)"
    by auto
  then show ?case
  proof cases
    case 1
    with Module.prems(3) show ?thesis by simp
  next
    case 2
    from 2(1) Module.prems(1) have ne: "name \<noteq> []" and wf: "wf_module c"
      by (auto simp: list_all_iff)
    from 2(2) named_modules_prefix [OF wf, of name]
    obtain q where q: "a = sub_name name q" "(q, x) \<in> set (named_modules [] c)"
      by auto
    have "(sub_name q b, y) \<in> set (named_modules [] c)"
      using Module.IH [of "(name, c)" c q] 2(1) wf q(2) Module.prems(3) by simp
    then have "(sub_name name (sub_name q b), y) \<in> set (named_modules name c)"
      using named_modules_prefix [OF wf, of name] by force
    then have "(sub_name a b, y) \<in> set (named_modules name c)"
      by (simp add: q(1) sub_name_assoc)
    with 2(1) show ?thesis by force
  qed
qed

lemma named_parameters_iff:
  "p \<in> set (named_parameters m) \<longleftrightarrow>
   (\<exists>q md k. (q, md) \<in> set (named_modules [] m) \<and> k \<in> set (own_params md) \<and> p = join_name q k)"
  by (auto simp: named_parameters_def)

lemma full_name_in_parameters:
  assumes "wf_module net" "(mn, m) \<in> set (named_modules [] net)" "pn \<in> set (named_parameters m)"
  shows "full_name mn pn \<in> set (named_parameters net)"
proof -
  from assms(3) obtain q md k where
    q: "(q, md) \<in> set (named_modules [] m)" "k \<in> set (own_params md)" "pn = join_name q k"
    unfolding named_parameters_iff by blast
  have "(sub_name mn q, md) \<in> set (named_modules [] net)"
    using named_modules_trans [OF assms(1,2) q(1)] .
  moreover have "full_name mn pn = join_name (sub_name mn q) k"
    by (simp add: full_name_join q(3) join_sub_name)
  ultimately show ?thesis
    unfolding named_parameters_iff using q(2) by blast
qed

lemma endswith_simps:
  "endswith s suf = prefix (rev suf) (rev s)"
  by (simp add: endswith_def suffix_to_prefix)

lemma configure_optimizers_wf:
  assumes "wf_module net" and "separate_params net = (decay, no_decay)"
  shows "configure_optimizers net =
           (if decay \<inter> no_decay = {} \<and> decay \<union> no_decay = set (named_parameters net)
            then Inr (decay, no_decay) else Inl AssertionError)"
proof -
  have sets:
    "decay = {full_name mn pn | mn m pn.
         (mn, m) \<in> set (named_modules [] net) \<and> pn \<in> set (named_parameters m) \<and> to_decay m pn}"
    "no_decay = {full_name mn pn | mn m pn.
         (mn, m) \<in> set (named_modules [] net) \<and> pn \<in> set (named_parameters m) \<and> to_no_decay m pn}"
    using assms(2) unfolding separate_params_sets by simp_all
  have sub: "decay \<union> no_decay \<subseteq> set (named_parameters net)"
    unfolding sets using full_name_in_parameters [OF assms(1)] by blast
  show ?thesis
    using sub assms(2) by (auto simp: configure_optimizers_def Let_def)
qed

lemma tree_vqvae:
  "vq_flavor a = ''vqvae'' \<Longrightarrow> VQVAE_init ini a nh nrh ed ne = Inr m \<Longrightarrow>
   VQVAE_module m = VQVAE_module model_vqvae"
  by (auto simp: VQVAE_init_def QuantizerModule_def VQVAE_module_def model_vqvae_def)

lemma tree_gumbel:
  "vq_flavor a = ''gumbel'' \<Longrightarrow> VQVAE_init ini a nh nrh ed ne = Inr m \<Longrightarrow>
   VQVAE_module m = VQVAE_module model_gumbel"
  by (auto simp: VQVAE_init_def QuantizerModule_def VQVAE_module_def model_gumbel_def)

lemma wf_vqvae: "wf_module (VQVAE_module model_vqvae)"
  by code_simp

lemma wf_gumbel: "wf_module (VQVAE_module model_gumbel)"
  by code_simp

lemma part_vqvae:
  "fst (separate_params (VQVAE_module model_vqvae)) \<inter> snd (separate_params (VQVAE_module model_vqvae)) = {} \<and>
   fst (separate_params (VQVAE_module model_vqvae)) \<union> snd (separate_params (VQVAE_module model_vqvae))
     = set (named_parameters (VQVAE_module model_vqvae))"
  by code_simp

lemma part_gumbel:
  "fst (separate_params (VQVAE_module model_gumbel)) \<inter> snd (separate_params (VQVAE_module model_gumbel)) = {} \<and>
   fst (separate_params (VQVAE_module model_gumbel)) \<union> snd (separate_params (VQVAE_module model_gumbel))
     = set (named_parameters (VQVAE_module model_gumbel))"
  by code_simp

text \<open>For every model the constructor builds, with either quantizer, the setup succeeds:
  the two sets are a disjoint cover of the parameter names.\<close>

lemma VQVAE_configure_optimizers:
  assumes "VQVAE_init ini a nh nrh ed ne = Inr m"
  shows "configure_optimizers (VQVAE_module m) = Inr (separate_params (VQVAE_module m))"
proof -
  have "vq_flavor a = ''vqvae'' \<or> vq_flavor a = ''gumbel''"
    using assms by (auto simp: VQVAE_init_def QuantizerModule_def split: if_splits)
  then show ?thesis
  proof
    assume "vq_flavor a = ''vqvae''"
    then have t: "VQVAE_module m = VQVAE_module model_vqvae"
      using assms by (rule tree_vqvae)
    show ?thesis
      unfolding t
      using configure_optimizers_wf [OF wf_vqvae, of "fst (separate_params (VQVAE_module model_vqvae))"
          "snd (separate_params (VQVAE_module model_vqvae))"] part_vqvae
      by simp
  next
    assume "vq_flavor a = ''gumbel''"
    then have t: "VQVAE_module m = VQVAE_module model_gumbel"
      using assms by (rule tree_gumbel)
    show ?thesis
      unfolding t
      using configure_optimizers_wf [OF wf_gumbel, of "fst (separate_params (VQVAE_module model_gumbel))"
          "snd (separate_params (VQVAE_module model_gumbel))"] part_gumbel
      by simp
  qed
qed

text \<open>
  Claim C7. For a module tree whose child names are non-empty, the loop puts every
  parameter whose name ends in \<open>bias\<close> and every \<open>weight\<close> of a LayerNorm, BatchNorm2d
  or Embedding module into \<open>no_decay\<close>, and every \<open>weight\<close> of a Linear, Conv2d or
  ConvTranspose2d module into \<open>decay\<close>; the setup returns the two groups when the sets
  are disjoint and their union is the set of all parameter names, and fails with an
  assertion error otherwise.
\<close>

theorem weight_decay_partition:
  assumes "wf_module net" and "separate_params net = (decay, no_decay)"
  shows "(\<forall>(mn, m) \<in> set (named_modules [] net). \<forall>pn \<in> set (named_parameters m).
            (endswith pn ''bias'' \<longrightarrow> full_name mn pn \<in> no_decay) \<and>
            (endswith pn ''weight'' \<and> isinstance m blacklist_weight_modules
               \<longrightarrow> full_name mn pn \<in> no_decay) \<and>
            (endswith pn ''weight'' \<and> isinstance m whitelist_weight_modules
               \<longrightarrow> full_name mn pn \<in> decay)) \<and>
         configure_optimizers net =
           (if decay \<inter> no_decay = {} \<and> decay \<union> no_decay = set (named_parameters net)
            then Inr (decay, no_decay) else Inl AssertionError)"
proof (intro conjI)
  have sets:
    "decay = {full_name mn pn | mn m pn.
         (mn, m) \<in> set (named_modules [] net) \<and> pn \<in> set (named_parameters m) \<and> to_decay m pn}"
    "no_decay = {full_name mn pn | mn m pn.
         (mn, m) \<in> set (named_modules [] net) \<and> pn \<in> set (named_parameters m) \<and> to_no_decay m pn}"
    using assms(2) unfolding separate_params_sets by simp_all
  show "\<forall>(mn, m) \<in> set (named_modules [] net). \<forall>pn \<in> set (named_parameters m).
            (endswith pn ''bias'' \<longrightarrow> full_name mn pn \<in> no_decay) \<and>
            (endswith pn ''weight'' \<and> isinstance m blacklist_weight_modules
               \<longrightarrow> full_name mn pn \<in> no_decay) \<and>
            (endswith pn ''weight'' \<and> isinstance m whitelist_weight_modules
               \<longrightarrow> full_name mn pn \<in> decay)"
    unfolding sets to_decay_def to_no_decay_def
    using not_bias_and_weight not_white_and_black by blast
  show "configure_optimizers net =
           (if decay \<inter> no_decay = {} \<and> decay \<union> no_decay = set (named_parameters net)
            then Inr (decay, no_decay) else Inl AssertionError)"
    using assms by (rule configure_optimizers_wf)
qed

theorem weight_decay_partition_witness:
  "wf_module net0 \<and>
   separate_params net0 = ({''weight'', ''emb.weight''}, {''bias'', ''emb.weight''}) \<and>
   full_name [] ''bias'' \<in> {''bias'', ''emb.weight''} \<and>
   full_name ''emb'' ''weight'' \<in> {''bias'', ''emb.weight''} \<and>
   full_name [] ''weight'' \<in> {''weight'', ''emb.weight''} \<and>
   configure_optimizers net0 = Inl AssertionError"
proof -
  have wf: "wf_module net0"
    by (simp add: net0_def Embedding_module_def)
  have sp: "separate_params net0 = ({''weight'', ''emb.weight''}, {''bias'', ''emb.weight''})"
    by (simp add: separate_params_def net0_def Embedding_module_def named_parameters_def
          join_name_def sort_param_def full_name_def endswith_simps isinstance_def
          whitelist_weight_modules_def blacklist_weight_modules_def insert_commute)
  have "configure_optimizers net0 = Inl AssertionError"
    using weight_decay_partition [OF wf sp]
    by (simp add: net0_def Embedding_module_def named_parameters_def join_name_def)
  with wf sp show ?thesis by (simp add: full_name_def)
qed

section \<open>Facts about the tensor operations\<close>

lemma is_mat_nth: "is_mat A n m \<Longrightarrow> i < n \<Longrightarrow> length (A ! i) = m"
  by (simp add: is_mat_def list_all_length)

lemma is_mat_length: "is_mat A n m \<Longrightarrow> length A = n"
  by (simp add: is_mat_def)

lemma is_mat_hd: "is_mat A n m \<Longrightarrow> 0 < n \<Longrightarrow> length (hd A) = m"
  by (cases A) (simp_all add: is_mat_def)

lemma is_matI: "length A = n \<Longrightarrow> (\<And>i. i < n \<Longrightarrow> length (A ! i) = m) \<Longrightarrow> is_mat A n m"
  by (simp add: is_mat_def list_all_length)

lemma chunks_Nil [simp]: "chunks n [] = []"
  by (simp add: chunks.simps)

lemma chunks_concat:
  "0 < n \<Longrightarrow> list_all (\<lambda>r. length r = n) xss \<Longrightarrow> chunks n (concat xss) = xss"
proof (induction xss)
  case Nil
  then show ?case by simp
next
  case (Cons r xss)
  then have "r \<noteq> []" by auto
  with Cons show ?case by (subst chunks.simps) simp
qed

lemma chunks_map: "chunks n (map f xs) = map (map f) (chunks n xs)"
proof (induction n xs rule: chunks.induct)
  case (1 n xs)
  show ?case
  proof (cases "n = 0 \<or> xs = []")
    case True
    then show ?thesis by (auto simp: chunks.simps)
  next
    case False
    with 1 show ?thesis
      by (subst chunks.simps, subst (2) chunks.simps) (simp add: take_map drop_map)
  qed
qed

lemma argmax_from_inv:
  assumes "best_i < length pre" "best = pre ! best_i"
    and "\<forall>j<length pre. pre ! j \<le> best" "\<forall>j<best_i. pre ! j < best"
  shows "argmax_from best_i best (length pre) xs < length (pre @ xs) \<and>
         (\<forall>j<length (pre @ xs).
            (pre @ xs) ! j \<le> (pre @ xs) ! argmax_from best_i best (length pre) xs) \<and>
         (\<forall>j<argmax_from best_i best (length pre) xs.
            (pre @ xs) ! j < (pre @ xs) ! argmax_from best_i best (length pre) xs)"
  using assms
proof (induction xs arbitrary: pre best_i best)
  case Nil
  then show ?case by simp
next
  case (Cons x xs)
  let ?pre = "pre @ [x]"
  show ?case
  proof (cases "best < x")
    case True
    have a: "length pre < length ?pre" "x = ?pre ! length pre" by simp_all
    have b: "\<forall>j<length ?pre. ?pre ! j \<le> x"
      using Cons.prems(3) True by (auto simp: nth_append less_Suc_eq)
    have c: "\<forall>j<length pre. ?pre ! j < x"
      using Cons.prems(3) True by (auto simp: nth_append)
    from Cons.IH [OF a b c] True show ?thesis by simp
  next
    case False
    have a: "best_i < length ?pre" "best = ?pre ! best_i"
      using Cons.prems(1,2) by (simp_all add: nth_append)
    have b: "\<forall>j<length ?pre. ?pre ! j \<le> best"
      using Cons.prems(3) False by (auto simp: nth_append less_Suc_eq)
    have c: "\<forall>j<best_i. ?pre ! j < best"
      using Cons.prems(1,4) by (auto simp: nth_append)
    from Cons.IH [OF a b c] False show ?thesis by simp
  qed
qed

lemma argmax_first:
  assumes "xs \<noteq> []"
  shows "argmax xs < length xs \<and>
         (\<forall>j<length xs. xs ! j \<le> xs ! argmax xs) \<and>
         (\<forall>j<argmax xs. xs ! j < xs ! argmax xs)"
proof -
  from assms obtain x rest where xs: "xs = x # rest" by (cases xs) auto
  have "argmax_from 0 x (length [x]) rest < length ([x] @ rest) \<and>
         (\<forall>j<length ([x] @ rest).
            ([x] @ rest) ! j \<le> ([x] @ rest) ! argmax_from 0 x (length [x]) rest) \<and>
         (\<forall>j<argmax_from 0 x (length [x]) rest.
            ([x] @ rest) ! j < ([x] @ rest) ! argmax_from 0 x (length [x]) rest)"
    by (rule argmax_from_inv) simp_all
  then show ?thesis by (simp add: xs argmax_def)
qed

lemma expansion_identity:
  "length a = length b \<Longrightarrow>
   sum_list (map (\<lambda>x. x ^ 2) a) - dot (map (\<lambda>x. 2 * x) a) b + sum_list (map (\<lambda>x. x ^ 2) b)
   = sqdist a b"
proof (induction a b rule: list_induct2)
  case Nil
  then show ?case by (simp add: dot_def sqdist_def)
next
  case (Cons x xs y ys)
  then show ?case
    by (simp add: dot_def sqdist_def power2_diff algebra_simps)
qed

lemma is_mat_set: "is_mat A n m \<Longrightarrow> r \<in> set A \<Longrightarrow> length r = m"
  by (simp add: is_mat_def list_all_iff)

lemma replicate_one_hd: "length xs = Suc 0 \<Longrightarrow> [hd xs] = xs"
  by (cases xs) simp_all

lemma expand_same:
  assumes "is_mat M n m" "0 < n" "0 < m"
  shows "expand n m M = M"
proof -
  have rows: "(if length M = 1 then replicate n (hd M) else M) = M"
    using assms(1) by (auto simp: is_mat_def replicate_one_hd)
  have "map (\<lambda>r. if length r = 1 then replicate m (hd r) else r) M = M"
    using is_mat_set [OF assms(1)] by (intro map_idI) (auto simp: replicate_one_hd)
  with rows show ?thesis by (simp add: expand_def)
qed

lemma expand_col:
  assumes "is_mat A n (Suc 0)" "0 < n"
  shows "expand n m A = map (\<lambda>r. replicate m (hd r)) A"
proof -
  have rows: "(if length A = 1 then replicate n (hd A) else A) = A"
    using assms(1) by (auto simp: is_mat_def replicate_one_hd)
  have "map (\<lambda>r. if length r = 1 then replicate m (hd r) else r) A =
        map (\<lambda>r. replicate m (hd r)) A"
    using is_mat_set [OF assms(1)] by (intro map_cong) auto
  with rows show ?thesis by (simp add: expand_def)
qed

lemma expand_row:
  assumes "is_mat R (Suc 0) m" "0 < m"
  shows "expand n m R = replicate n (hd R)"
proof -
  from assms(1) obtain r where R: "R = [r]" "length r = m"
    by (cases R) (auto simp: is_mat_def)
  have "(if length r = 1 then replicate m (hd r) else r) = r"
    using R(2) by (auto simp: replicate_one_hd)
  then show ?thesis by (simp add: expand_def R)
qed

lemma map_nth_len: "length xs = m \<Longrightarrow> map (\<lambda>i. xs ! i) [0..<m] = xs"
  by (auto simp: map_nth)

lemma t_mat_t_mat:
  assumes "is_mat A n m" "0 < n" "0 < m"
  shows "t_mat (t_mat A) = A"
proof -
  have hd: "length (hd A) = m" using assms(1,2) by (rule is_mat_hd)
  have len: "length A = n" using assms(1) by (rule is_mat_length)
  have l1: "length (hd (t_mat A)) = n"
    using assms(3) len by (simp add: t_mat_def hd hd_map upt_conv_Cons)
  have "t_mat (t_mat A) = map (\<lambda>j. map (\<lambda>i. A ! j ! i) [0..<m]) [0..<n]"
    unfolding t_mat_def [of "t_mat A"] l1
    by (simp add: t_mat_def hd len comp_def cong: map_cong)
  also have "\<dots> = map (\<lambda>j. A ! j) [0..<n]"
    using is_mat_nth [OF assms(1)] by (intro map_cong) (auto simp: map_nth_len)
  also have "\<dots> = A" using len by (rule map_nth_len)
  finally show ?thesis .
qed

lemma map2_replicate_left:
  "length ys = n \<Longrightarrow> map2 f (replicate n a) ys = map (f a) ys"
  by (induction ys arbitrary: n) auto

lemma map2_replicate_right:
  "length xs = n \<Longrightarrow> map2 f xs (replicate n a) = map (\<lambda>x. f x a) xs"
  by (induction xs arbitrary: n) auto

lemma map2_map_same:
  "map2 f (map g xs) (map h xs) = map (\<lambda>x. f (g x) (h x)) xs"
  by (induction xs) auto

lemma dist_expansion_eq:
  assumes F: "is_mat F N E" and Wt: "is_mat Wt K E" and pos: "0 < N" "0 < K" "0 < E"
  shows "dist_expansion F Wt = map (\<lambda>r. map (\<lambda>c. sqdist r c) Wt) F"
proof -
  have lenF: "length F = N" and lenW: "length Wt = K"
    using F Wt by (simp_all add: is_mat_length)
  let ?sq = "\<lambda>r. sum_list (map (\<lambda>x. x ^ 2) r)"
  let ?A = "sum1_keepdim (pow2 F)"
  let ?M = "matmul (scale 2 F) (t_mat Wt)"
  let ?B = "t_mat (sum1_keepdim (pow2 Wt))"
  have A: "?A = map (\<lambda>r. [?sq r]) F"
    by (simp add: sum1_keepdim_def pow2_def comp_def)
  have M: "?M = map (\<lambda>r. map (\<lambda>c. dot (map (\<lambda>x. 2 * x) r) c) Wt) F"
    by (simp add: matmul_def scale_def t_mat_t_mat [OF Wt pos(2,3)] comp_def)
  have S: "sum1_keepdim (pow2 Wt) = map (\<lambda>c. [?sq c]) Wt"
    by (simp add: sum1_keepdim_def pow2_def comp_def)
  have Wne: "Wt \<noteq> []" using lenW pos(2) by auto
  have B: "?B = [map ?sq Wt]"
    using Wne by (simp add: S t_mat_def hd_map comp_def)
  have matA: "is_mat ?A N (Suc 0)"
    by (simp add: A is_mat_def lenF list_all_iff)
  have matM: "is_mat ?M N K"
    by (simp add: M is_mat_def lenF lenW list_all_iff)
  have matB: "is_mat ?B (Suc 0) K"
    by (simp add: B is_mat_def lenW)
  let ?D = "map (\<lambda>r. map (\<lambda>c. ?sq r - dot (map (\<lambda>x. 2 * x) r) c) Wt) F"
  have matD: "is_mat ?D N K"
    by (simp add: is_mat_def lenF lenW list_all_iff)
  have hdA: "length (hd ?A) = Suc 0" using matA pos(1) by (rule is_mat_hd)
  have hdM: "length (hd ?M) = K" using matM pos(1) by (rule is_mat_hd)
  have hdD: "length (hd ?D) = K" using matD pos(1) by (rule is_mat_hd)
  have "broadcast2 (-) ?A ?M =
          map2 (map2 (-)) (map (\<lambda>r. replicate K (hd r)) ?A) ?M"
    unfolding broadcast2_def Let_def hdA hdM
    using pos(2)
    by (simp add: is_mat_length [OF matA] is_mat_length [OF matM] max_def
        expand_col [OF matA pos(1)] expand_same [OF matM pos(1,2)])
  also have "\<dots> = map (\<lambda>r. map2 (-) (replicate K (?sq r))
                                   (map (\<lambda>c. dot (map (\<lambda>x. 2 * x) r) c) Wt)) F"
    by (simp add: A M map2_map_same comp_def)
  also have "\<dots> = ?D"
    by (simp add: map2_replicate_left lenW)
  finally have D: "broadcast2 (-) ?A ?M = ?D" .
  have n: "max (length ?D) (length ?B) = N"
    using pos(1) by (simp add: lenF B)
  have m: "max (length (hd ?D)) (length (hd ?B)) = K"
    unfolding hdD by (simp add: B lenW)
  have hdB: "hd ?B = map ?sq Wt"
    by (simp add: B)
  have "broadcast2 (+) ?D ?B = map2 (map2 (+)) (expand N K ?D) (expand N K ?B)"
    by (simp only: broadcast2_def Let_def n m)
  also have "\<dots> = map2 (map2 (+)) ?D (replicate N (map ?sq Wt))"
    by (simp only: expand_same [OF matD pos(1,2)] expand_row [OF matB pos(2)] hdB)
  also have "\<dots> = map (\<lambda>d. map2 (+) d (map ?sq Wt)) ?D"
    by (rule map2_replicate_right) (simp add: lenF)
  also have "\<dots> = map (\<lambda>r. map (\<lambda>c. ?sq r - dot (map (\<lambda>x. 2 * x) r) c + ?sq c) Wt) F"
    by (simp add: comp_def map2_map_same)
  also have "\<dots> = map (\<lambda>r. map (\<lambda>c. sqdist r c) Wt) F"
  proof (intro map_cong refl)
    fix r c assume "r \<in> set F" "c \<in> set Wt"
    then have "length r = length c"
      using is_mat_set [OF F] is_mat_set [OF Wt] by simp
    then show "?sq r - dot (map (\<lambda>x. 2 * x) r) c + ?sq c = sqdist r c"
      by (rule expansion_identity)
  qed
  finally show ?thesis
    unfolding dist_expansion_def D .
qed

lemma is_tensor4_nth:
  "is_tensor4 t n1 n2 n3 n4 \<longleftrightarrow>
     length t = n1 \<and>
     (\<forall>a<n1. length (t ! a) = n2 \<and>
        (\<forall>b<n2. length (t ! a ! b) = n3 \<and> (\<forall>c<n3. length (t ! a ! b ! c) = n4)))"
  by (auto simp: is_tensor4_def is_tensor3_def is_mat_def list_all_length)

lemma size4_tensor:
  assumes "is_tensor4 t n1 n2 n3 n4" "0 < n1" "0 < n2" "0 < n3"
  shows "size4 t = (n1, n2, n3, n4)"
proof -
  from assms have t: "t \<noteq> []" "length (t ! 0) = n2" "length (t ! 0 ! 0) = n3"
      "length (t ! 0 ! 0 ! 0) = n4"
    by (auto simp: is_tensor4_nth)
  then have "t ! 0 \<noteq> []" "t ! 0 ! 0 \<noteq> []" using assms by auto
  with t assms(1) show ?thesis
    by (simp add: size4_def hd_conv_nth is_tensor4_nth)
qed

lemma Conv2d_1x1_tensor:
  assumes z: "is_tensor4 z B C H W" and pos: "0 < B" "0 < C" "0 < H"
    and len: "length weight = E" "length bias = E"
  shows "is_tensor4 (Conv2d_1x1 weight bias z) B E H W"
proof -
  have "length z = B" using z by (simp add: is_tensor4_def)
  then show ?thesis
    unfolding Conv2d_1x1_def size4_tensor [OF z pos] prod.case
    by (auto simp: is_tensor4_def is_tensor3_def is_mat_def list_all_iff len split_def)
qed

lemma permute_0231_tensor:
  assumes t: "is_tensor4 t n0 n1 n2 n3" and pos: "0 < n0" "0 < n1" "0 < n2"
  shows "is_tensor4 (permute_0231 t) n0 n2 n3 n1"
proof -
  have "length t = n0" using t by (simp add: is_tensor4_def)
  then show ?thesis
    unfolding permute_0231_def size4_tensor [OF t pos] prod.case
    by (auto simp: is_tensor4_def is_tensor3_def is_mat_def list_all_iff)
qed

lemma permute_0312_tensor:
  assumes t: "is_tensor4 t n0 n1 n2 n3" and pos: "0 < n0" "0 < n1" "0 < n2"
  shows "is_tensor4 (permute_0312 t) n0 n3 n1 n2"
proof -
  have "length t = n0" using t by (simp add: is_tensor4_def)
  then show ?thesis
    unfolding permute_0312_def size4_tensor [OF t pos] prod.case
    by (auto simp: is_tensor4_def is_tensor3_def is_mat_def list_all_iff)
qed

lemma permute_0231_nth:
  assumes t: "is_tensor4 t n0 n1 n2 n3" and pos: "0 < n0" "0 < n1" "0 < n2"
    and i: "i0 < n0" "i2 < n2" "i3 < n3"
  shows "permute_0231 t ! i0 ! i2 ! i3 = map (\<lambda>i1. t ! i0 ! i1 ! i2 ! i3) [0..<n1]"
proof -
  have "length t = n0" using t by (simp add: is_tensor4_def)
  then show ?thesis
    unfolding permute_0231_def size4_tensor [OF t pos] prod.case
    using i by simp
qed

lemma permute_0312_nth:
  assumes t: "is_tensor4 t n0 n1 n2 n3" and pos: "0 < n0" "0 < n1" "0 < n2"
    and i: "i0 < n0" "i1 < n1" "i2 < n2" "i3 < n3"
  shows "permute_0312 t ! i0 ! i3 ! i1 ! i2 = t ! i0 ! i1 ! i2 ! i3"
proof -
  have "length t = n0" using t by (simp add: is_tensor4_def)
  then show ?thesis
    unfolding permute_0312_def size4_tensor [OF t pos] prod.case
    using i by simp
qed

lemma tensor4_rows:
  assumes "is_tensor4 t n0 n1 n2 n3"
  shows "list_all (\<lambda>r. length r = n1) t"
    and "list_all (\<lambda>r. length r = n2) (concat t)"
    and "list_all (\<lambda>r. length r = n3) (concat (concat t))"
  using assms by (auto simp: is_tensor4_def is_tensor3_def is_mat_def list_all_iff)

lemma reshape_rows_tensor:
  assumes "is_tensor4 t n0 n1 n2 n3" "0 < n3"
  shows "reshape_rows n3 t = concat (concat t)"
  unfolding reshape_rows_def
  using assms(2) tensor4_rows(3) [OF assms(1)] by (rule chunks_concat)

lemma view3_map_tensor:
  assumes t: "is_tensor4 t n0 n1 n2 n3" and pos: "0 < n1" "0 < n2"
  shows "view3 n0 n1 n2 (map g (concat (concat t))) = map (map (map g)) t"
proof -
  have 1: "chunks n2 (concat (concat t)) = concat t"
    by (rule chunks_concat [OF pos(2) tensor4_rows(2) [OF t]])
  have 2: "chunks n1 (concat t) = t"
    by (rule chunks_concat [OF pos(1) tensor4_rows(1) [OF t]])
  show ?thesis
    unfolding view3_def chunks_map 1 2 by (rule refl)
qed

lemma length_concat_tensor:
  assumes "is_tensor4 t n0 n1 n2 n3"
  shows "length (concat (concat t)) = n0 * n1 * n2"
    and "length (concat (concat (concat t))) = n0 * n1 * n2 * n3"
proof -
  have a: "length (concat xss) = length xss * n" if "list_all (\<lambda>r. length r = n) xss"
    for xss :: "'b list list" and n
    using that by (induction xss) auto
  have 1: "length (concat t) = n0 * n1"
    using a [OF tensor4_rows(1) [OF assms]] assms by (simp add: is_tensor4_def)
  show 2: "length (concat (concat t)) = n0 * n1 * n2"
    using a [OF tensor4_rows(2) [OF assms]] 1 by simp
  show "length (concat (concat (concat t))) = n0 * n1 * n2 * n3"
    using a [OF tensor4_rows(3) [OF assms]] 2 by simp
qed

lemma z_e_tensor:
  assumes "well_shaped rnd self z B C H W"
  shows "is_tensor4 (z_e_of self z) B H W (embedding_dim self)"
proof -
  from assms have z: "is_tensor4 z B C H W" and pos: "0 < B" "0 < C" "0 < H" "0 < W"
    and E: "0 < embedding_dim self"
    and len: "length (proj_weight self) = embedding_dim self"
             "length (proj_bias self) = embedding_dim self"
    by (auto simp: well_shaped_def is_mat_def)
  have "is_tensor4 (Conv2d_1x1 (proj_weight self) (proj_bias self) z) B (embedding_dim self) H W"
    using z pos(1-3) len by (rule Conv2d_1x1_tensor)
  then show ?thesis
    unfolding z_e_of_def using pos(1) E pos(3) by (rule permute_0231_tensor)
qed

lemma z_e_nth:
  assumes ws: "well_shaped rnd self z B C H W" and i: "b < B" "h < H" "w < W"
  shows "z_e_of self z ! b ! h ! w = projected self z b h w"
proof -
  from ws have z: "is_tensor4 z B C H W" and pos: "0 < B" "0 < C" "0 < H" "0 < W"
    and E: "0 < embedding_dim self"
    and len: "length (proj_weight self) = embedding_dim self"
             "length (proj_bias self) = embedding_dim self"
    by (auto simp: well_shaped_def is_mat_def)
  have P: "is_tensor4 (Conv2d_1x1 (proj_weight self) (proj_bias self) z) B (embedding_dim self) H W"
    using z pos(1-3) len by (rule Conv2d_1x1_tensor)
  show ?thesis
    unfolding z_e_of_def projected_def
    using P pos(1) E pos(3) i by (rule permute_0231_nth)
qed

lemma codebook_eq:
  assumes ws: "well_shaped rnd self z B C H W"
  shows "codebook rnd self z =
           embed_weight (fst (seed_codebook rnd self (concat (concat (z_e_of self z)))))"
proof -
  from ws have E: "0 < embedding_dim self" by (simp add: well_shaped_def)
  show ?thesis
    unfolding codebook_def fst_forward
    using reshape_rows_tensor [OF z_e_tensor [OF ws] E]
    by simp
qed

lemma seed_no_error:
  assumes ws: "well_shaped rnd self z B C H W"
  shows "snd (seed_codebook rnd self (concat (concat (z_e_of self z)))) = None"
proof -
  from ws have E: "0 < embedding_dim self" by (simp add: well_shaped_def)
  have flat: "reshape_rows (embedding_dim self) (z_e_of self z) = concat (concat (z_e_of self z))"
    using reshape_rows_tensor [OF z_e_tensor [OF ws] E] by simp
  show ?thesis
  proof (cases "training self \<and> data_initialized self = 0")
    case True
    with ws have "\<not> isl (kmeans_result rnd self z)" by (simp add: well_shaped_def)
    then obtain kd where "kmeans_result rnd self z = Inr kd"
      by (cases "kmeans_result rnd self z") simp_all
    with True seed_returns [of self rnd z kd] show ?thesis by (simp add: flat)
  next
    case False
    then show ?thesis using seed_skip [of self rnd] by auto
  qed
qed

lemma forward_unfold:
  assumes ws: "well_shaped rnd self z B C H W"
  defines "ze \<equiv> z_e_of self z"
    and "weight \<equiv> codebook rnd self z"
  defines "ind \<equiv> map (map (map (nearest weight))) ze"
  defines "zq \<equiv> embedding ind weight"
  shows "VQVAEQuantize_forward rnd self z =
           (fst (seed_codebook rnd self (concat (concat ze))),
            Inr (permute_0312 (zip4 (+) ze (detach (zip4 (-) zq ze))),
                 0.25 * mean4 (map4 (\<lambda>x. x ^ 2) (zip4 (-) (detach zq) ze))
                   + mean4 (map4 (\<lambda>x. x ^ 2) (zip4 (-) zq (detach ze))),
                 ind))"
proof -
  from ws have z: "is_tensor4 z B C H W" and pos: "0 < B" "0 < C" "0 < H" "0 < W"
    and E: "0 < embedding_dim self" and K: "0 < n_embed self"
    and cb: "is_mat weight (n_embed self) (embedding_dim self)"
    by (auto simp: well_shaped_def weight_def)
  have zet: "is_tensor4 ze B H W (embedding_dim self)"
    unfolding ze_def using ws by (rule z_e_tensor)
  let ?F = "concat (concat ze)"
  have flat: "reshape_rows (embedding_dim self)
                (permute_0231 (Conv2d_1x1 (proj_weight self) (proj_bias self) z)) = ?F"
    using reshape_rows_tensor [OF zet E] by (simp add: ze_def z_e_of_def)
  obtain s where seed: "seed_codebook rnd self ?F = (s, None)"
    using seed_no_error [OF ws] unfolding ze_def
    by (cases "seed_codebook rnd self (concat (concat (z_e_of self z)))") simp
  have w: "embed_weight s = weight"
    unfolding weight_def using codebook_eq [OF ws] seed by (simp add: ze_def)
  have N: "0 < B * H * W" using pos by simp
  have F: "is_mat ?F (B * H * W) (embedding_dim self)"
    unfolding is_mat_def
    using length_concat_tensor(1) [OF zet] tensor4_rows(3) [OF zet] by simp
  have dist: "dist_expansion ?F weight = map (\<lambda>r. map (\<lambda>c. sqdist r c) weight) ?F"
    using F cb N K E by (rule dist_expansion_eq)
  have idx: "max1_indices (neg (dist_expansion ?F weight)) = map (nearest weight) ?F"
    unfolding dist by (simp add: max1_indices_def neg_def nearest_def comp_def)
  have view: "view3 B H W (map (nearest weight) ?F) = ind"
    unfolding ind_def using zet pos(3,4) by (rule view3_map_tensor)
  show ?thesis
    unfolding VQVAEQuantize_forward_def size4_tensor [OF z pos(1-3)] prod.case Let_def
      flat seed option.case w idx view zq_def [symmetric] fst_conv
    by (simp add: ze_def z_e_of_def)
qed

lemma list_all_upt: "list_all P [0..<n] \<longleftrightarrow> (\<forall>j<n. P j)"
  by (auto simp: list_all_iff)

lemma nearest_first_argmin:
  assumes "weight \<noteq> []"
  shows "first_argmin (\<lambda>k. sqdist r (weight ! k)) (length weight) (nearest weight r)"
proof -
  let ?xs = "map (\<lambda>c. - sqdist r c) weight"
  have ne: "?xs \<noteq> []" using assms by simp
  from argmax_first [OF ne] have a: "argmax ?xs < length weight"
    by simp
  from argmax_first [OF ne] a
  have b: "\<forall>j<length weight. sqdist r (weight ! argmax ?xs) \<le> sqdist r (weight ! j)"
    by simp
  have c: "\<forall>j<argmax ?xs. sqdist r (weight ! argmax ?xs) < sqdist r (weight ! j)"
  proof (intro allI impI)
    fix j assume j: "j < argmax ?xs"
    then have "j < length weight" using a by simp
    with argmax_first [OF ne] a j show "sqdist r (weight ! argmax ?xs) < sqdist r (weight ! j)"
      by auto
  qed
  show ?thesis
    unfolding first_argmin_def list_all_upt nearest_def
    using a b c by simp
qed

lemma ind_nth:
  assumes "is_tensor4 ze B H W E" "b < B" "h < H" "w < W"
  shows "map (map (map g)) ze ! b ! h ! w = g (ze ! b ! h ! w)"
  using assms by (simp add: is_tensor4_nth)

lemma zip4_tensor:
  assumes "is_tensor4 a n0 n1 n2 n3" "is_tensor4 b n0 n1 n2 n3"
  shows "is_tensor4 (zip4 f a b) n0 n1 n2 n3"
  using assms unfolding zip4_def is_tensor4_nth by simp

lemma zip4_nth:
  assumes "is_tensor4 a n0 n1 n2 n3" "is_tensor4 b n0 n1 n2 n3"
    and "i0 < n0" "i1 < n1" "i2 < n2" "i3 < n3"
  shows "zip4 f a b ! i0 ! i1 ! i2 ! i3 = f (a ! i0 ! i1 ! i2 ! i3) (b ! i0 ! i1 ! i2 ! i3)"
  using assms unfolding zip4_def is_tensor4_nth by simp

lemma map4_tensor:
  assumes "is_tensor4 a n0 n1 n2 n3"
  shows "is_tensor4 (map4 f a) n0 n1 n2 n3"
  using assms unfolding map4_def is_tensor4_nth by simp

lemma map4_nth:
  assumes "is_tensor4 a n0 n1 n2 n3" and "i0 < n0" "i1 < n1" "i2 < n2" "i3 < n3"
  shows "map4 f a ! i0 ! i1 ! i2 ! i3 = f (a ! i0 ! i1 ! i2 ! i3)"
  using assms unfolding map4_def is_tensor4_nth by simp

lemma tensor4_eqI:
  assumes a: "is_tensor4 a n0 n1 n2 n3" and b: "is_tensor4 b n0 n1 n2 n3"
    and eq: "\<And>i0 i1 i2 i3. i0 < n0 \<Longrightarrow> i1 < n1 \<Longrightarrow> i2 < n2 \<Longrightarrow> i3 < n3 \<Longrightarrow>
              a ! i0 ! i1 ! i2 ! i3 = b ! i0 ! i1 ! i2 ! i3"
  shows "a = b"
proof (rule nth_equalityI)
  show "length a = length b" using a b by (simp add: is_tensor4_nth)
  fix i0 assume "i0 < length a"
  then have i0: "i0 < n0" using a by (simp add: is_tensor4_nth)
  show "a ! i0 = b ! i0"
  proof (rule nth_equalityI)
    show "length (a ! i0) = length (b ! i0)" using a b i0 by (simp add: is_tensor4_nth)
    fix i1 assume "i1 < length (a ! i0)"
    then have i1: "i1 < n1" using a i0 by (simp add: is_tensor4_nth)
    show "a ! i0 ! i1 = b ! i0 ! i1"
    proof (rule nth_equalityI)
      show "length (a ! i0 ! i1) = length (b ! i0 ! i1)"
        using a b i0 i1 by (simp add: is_tensor4_nth)
      fix i2 assume "i2 < length (a ! i0 ! i1)"
      then have i2: "i2 < n2" using a i0 i1 by (simp add: is_tensor4_nth)
      show "a ! i0 ! i1 ! i2 = b ! i0 ! i1 ! i2"
      proof (rule nth_equalityI)
        show "length (a ! i0 ! i1 ! i2) = length (b ! i0 ! i1 ! i2)"
          using a b i0 i1 i2 by (simp add: is_tensor4_nth)
        fix i3 assume "i3 < length (a ! i0 ! i1 ! i2)"
        then have i3: "i3 < n3" using a i0 i1 i2 by (simp add: is_tensor4_nth)
        show "a ! i0 ! i1 ! i2 ! i3 = b ! i0 ! i1 ! i2 ! i3"
          using i0 i1 i2 i3 by (rule eq)
      qed
    qed
  qed
qed

lemma zip4_add_sub:
  assumes a: "is_tensor4 a n0 n1 n2 n3" and b: "is_tensor4 b n0 n1 n2 n3"
  shows "zip4 (+) b (zip4 (-) a b) = a"
proof (rule tensor4_eqI)
  have d: "is_tensor4 (zip4 (-) a b) n0 n1 n2 n3" using a b by (rule zip4_tensor)
  show "is_tensor4 (zip4 (+) b (zip4 (-) a b)) n0 n1 n2 n3" using b d by (rule zip4_tensor)
  show "is_tensor4 a n0 n1 n2 n3" by (rule a)
  fix i0 i1 i2 i3 assume i: "i0 < n0" "i1 < n1" "i2 < n2" "i3 < n3"
  show "zip4 (+) b (zip4 (-) a b) ! i0 ! i1 ! i2 ! i3 = a ! i0 ! i1 ! i2 ! i3"
    by (simp add: zip4_nth [OF b d i] zip4_nth [OF a b i])
qed

lemma nearest_less: "weight \<noteq> [] \<Longrightarrow> nearest weight r < length weight"
  using nearest_first_argmin [of weight r] by (simp add: first_argmin_def)

lemma embedding_tensor:
  assumes ze: "is_tensor4 ze B H W E" and w: "is_mat weight K E'" "0 < K"
  shows "is_tensor4 (embedding (map (map (map (nearest weight))) ze) weight) B H W E'"
proof -
  have ne: "weight \<noteq> []" using w by (auto simp: is_mat_def)
  have "length (weight ! nearest weight r) = E'" for r
    using is_mat_nth [OF w(1)] nearest_less [OF ne, of r] w(1) by (simp add: is_mat_def)
  then show ?thesis
    using ze unfolding embedding_def is_tensor4_nth by simp
qed

lemma embedding_nth:
  assumes ze: "is_tensor4 ze B H W E" and i: "b < B" "h < H" "w < W"
  shows "embedding (map (map (map g)) ze) weight ! b ! h ! w = weight ! g (ze ! b ! h ! w)"
  using assms unfolding embedding_def is_tensor4_nth by simp

lemma sum_list_concat:
  fixes xss :: "real list list"
  shows "sum_list (concat xss) = sum_list (map sum_list xss)"
  by (induction xss) simp_all

lemma sum_list_map_nth:
  "sum_list (map f xs) = (\<Sum>i\<leftarrow>[0..<length xs]. f (xs ! i))"
proof -
  have "map f xs = map (\<lambda>i. f (xs ! i)) [0..<length xs]"
    by (intro nth_equalityI) simp_all
  then show ?thesis by simp
qed

lemma sum_list_upt_cong:
  "(\<And>i. i < n \<Longrightarrow> f i = g i) \<Longrightarrow> (\<Sum>i\<leftarrow>[0..<n]. f i) = (\<Sum>i\<leftarrow>[0..<n]. (g i :: real))"
  by (intro arg_cong [where f = sum_list] map_cong) auto

lemma sum_concat_nth:
  fixes xss :: "real list list"
  shows "sum_list (concat xss) = (\<Sum>i\<leftarrow>[0..<length xss]. sum_list (xss ! i))"
  using sum_list_map_nth [of sum_list xss] by (simp add: sum_list_concat)

lemma sum_concat2:
  fixes t :: "real list list list"
  shows "sum_list (concat (concat t)) = (\<Sum>i\<leftarrow>[0..<length t]. sum_list (concat (t ! i)))"
proof -
  have "sum_list (concat (concat t)) = sum_list (map (\<lambda>x. sum_list (concat x)) t)"
    by (induction t) simp_all
  then show ?thesis
    using sum_list_map_nth [of "\<lambda>x. sum_list (concat x)" t] by simp
qed

lemma sum_concat3:
  fixes t :: "real list list list list"
  shows "sum_list (concat (concat (concat t))) =
           (\<Sum>i\<leftarrow>[0..<length t]. sum_list (concat (concat (t ! i))))"
proof -
  have "sum_list (concat (concat (concat t))) =
          sum_list (map (\<lambda>x. sum_list (concat (concat x))) t)"
    by (induction t) simp_all
  then show ?thesis
    using sum_list_map_nth [of "\<lambda>x. sum_list (concat (concat x))" t] by simp
qed

lemma sum_tensor4:
  fixes t :: tensor4
  assumes t: "is_tensor4 t n0 n1 n2 n3"
  shows "sum_list (concat (concat (concat t))) =
           (\<Sum>i0\<leftarrow>[0..<n0]. \<Sum>i1\<leftarrow>[0..<n1]. \<Sum>i2\<leftarrow>[0..<n2]. \<Sum>i3\<leftarrow>[0..<n3].
               t ! i0 ! i1 ! i2 ! i3)"
proof -
  have l0: "length t = n0" using t by (simp add: is_tensor4_nth)
  have "sum_list (concat (concat (concat t))) =
          (\<Sum>i0\<leftarrow>[0..<n0]. sum_list (concat (concat (t ! i0))))"
    by (simp only: sum_concat3 l0)
  also have "\<dots> = (\<Sum>i0\<leftarrow>[0..<n0]. \<Sum>i1\<leftarrow>[0..<n1]. \<Sum>i2\<leftarrow>[0..<n2]. \<Sum>i3\<leftarrow>[0..<n3].
               t ! i0 ! i1 ! i2 ! i3)"
  proof (rule sum_list_upt_cong)
    fix i0 assume i0: "i0 < n0"
    then have l1: "length (t ! i0) = n1" using t by (simp add: is_tensor4_nth)
    have "sum_list (concat (concat (t ! i0))) =
            (\<Sum>i1\<leftarrow>[0..<n1]. sum_list (concat (t ! i0 ! i1)))"
      by (simp only: sum_concat2 l1)
    also have "\<dots> = (\<Sum>i1\<leftarrow>[0..<n1]. \<Sum>i2\<leftarrow>[0..<n2]. \<Sum>i3\<leftarrow>[0..<n3]. t ! i0 ! i1 ! i2 ! i3)"
    proof (rule sum_list_upt_cong)
      fix i1 assume i1: "i1 < n1"
      then have l2: "length (t ! i0 ! i1) = n2" using t i0 by (simp add: is_tensor4_nth)
      have "sum_list (concat (t ! i0 ! i1)) = (\<Sum>i2\<leftarrow>[0..<n2]. sum_list (t ! i0 ! i1 ! i2))"
        by (simp only: sum_concat_nth l2)
      also have "\<dots> = (\<Sum>i2\<leftarrow>[0..<n2]. \<Sum>i3\<leftarrow>[0..<n3]. t ! i0 ! i1 ! i2 ! i3)"
      proof (rule sum_list_upt_cong)
        fix i2 assume i2: "i2 < n2"
        then have l3: "length (t ! i0 ! i1 ! i2) = n3" using t i0 i1 by (simp add: is_tensor4_nth)
        show "sum_list (t ! i0 ! i1 ! i2) = (\<Sum>i3\<leftarrow>[0..<n3]. t ! i0 ! i1 ! i2 ! i3)"
          using sum_list_map_nth [of "\<lambda>x. x" "t ! i0 ! i1 ! i2"] l3 by simp
      qed
      finally show "sum_list (concat (t ! i0 ! i1)) =
                     (\<Sum>i2\<leftarrow>[0..<n2]. \<Sum>i3\<leftarrow>[0..<n3]. t ! i0 ! i1 ! i2 ! i3)" .
    qed
    finally show "sum_list (concat (concat (t ! i0))) =
                   (\<Sum>i1\<leftarrow>[0..<n1]. \<Sum>i2\<leftarrow>[0..<n2]. \<Sum>i3\<leftarrow>[0..<n3]. t ! i0 ! i1 ! i2 ! i3)" .
  qed
  finally show ?thesis .
qed

lemma sum4_cong:
  assumes "\<And>i0 i1 i2 i3. i0 < n0 \<Longrightarrow> i1 < n1 \<Longrightarrow> i2 < n2 \<Longrightarrow> i3 < n3 \<Longrightarrow>
             f i0 i1 i2 i3 = (g i0 i1 i2 i3 :: real)"
  shows "(\<Sum>i0\<leftarrow>[0..<n0]. \<Sum>i1\<leftarrow>[0..<n1]. \<Sum>i2\<leftarrow>[0..<n2]. \<Sum>i3\<leftarrow>[0..<n3]. f i0 i1 i2 i3) =
         (\<Sum>i0\<leftarrow>[0..<n0]. \<Sum>i1\<leftarrow>[0..<n1]. \<Sum>i2\<leftarrow>[0..<n2]. \<Sum>i3\<leftarrow>[0..<n3]. g i0 i1 i2 i3)"
  by (intro sum_list_upt_cong assms)

lemma mean4_mse:
  assumes a: "is_tensor4 a n0 n1 n2 n3" and b: "is_tensor4 b n0 n1 n2 n3"
    and f: "\<And>i0 i1 i2 i3. i0 < n0 \<Longrightarrow> i1 < n1 \<Longrightarrow> i2 < n2 \<Longrightarrow> i3 < n3 \<Longrightarrow>
              a ! i0 ! i1 ! i2 ! i3 = f i0 i1 i2 i3"
    and g: "\<And>i0 i1 i2 i3. i0 < n0 \<Longrightarrow> i1 < n1 \<Longrightarrow> i2 < n2 \<Longrightarrow> i3 < n3 \<Longrightarrow>
              b ! i0 ! i1 ! i2 ! i3 = g i0 i1 i2 i3"
  shows "mean4 (map4 (\<lambda>x. x ^ 2) (zip4 (-) a b)) = mse_spec f g n0 n1 n2 n3"
proof -
  have d: "is_tensor4 (zip4 (-) a b) n0 n1 n2 n3" using a b by (rule zip4_tensor)
  have t: "is_tensor4 (map4 (\<lambda>x. x ^ 2) (zip4 (-) a b)) n0 n1 n2 n3"
    using d by (rule map4_tensor)
  have "sum_list (concat (concat (concat (map4 (\<lambda>x. x ^ 2) (zip4 (-) a b))))) =
        (\<Sum>i0\<leftarrow>[0..<n0]. \<Sum>i1\<leftarrow>[0..<n1]. \<Sum>i2\<leftarrow>[0..<n2]. \<Sum>i3\<leftarrow>[0..<n3].
            map4 (\<lambda>x. x ^ 2) (zip4 (-) a b) ! i0 ! i1 ! i2 ! i3)"
    using t by (rule sum_tensor4)
  also have "\<dots> = (\<Sum>i0\<leftarrow>[0..<n0]. \<Sum>i1\<leftarrow>[0..<n1]. \<Sum>i2\<leftarrow>[0..<n2]. \<Sum>i3\<leftarrow>[0..<n3].
            (f i0 i1 i2 i3 - g i0 i1 i2 i3) ^ 2)"
  proof (rule sum4_cong)
    fix i0 i1 i2 i3 assume i: "i0 < n0" "i1 < n1" "i2 < n2" "i3 < n3"
    show "map4 (\<lambda>x. x ^ 2) (zip4 (-) a b) ! i0 ! i1 ! i2 ! i3 =
            (f i0 i1 i2 i3 - g i0 i1 i2 i3) ^ 2"
      by (simp add: map4_nth [OF d i] zip4_nth [OF a b i] f [OF i] g [OF i])
  qed
  finally show ?thesis
    by (simp add: mean4_def mse_spec_def Let_def length_concat_tensor(2) [OF t])
qed

lemma forward_parts:
  assumes ws: "well_shaped rnd self z B C H W"
  defines "ze \<equiv> z_e_of self z" and "weight \<equiv> codebook rnd self z"
  shows "forward_ind rnd self z = map (map (map (nearest weight))) ze"
    and "forward_z_q rnd self z =
           permute_0312 (zip4 (+) ze (detach (zip4 (-) (embedding (forward_ind rnd self z) weight) ze)))"
    and "forward_diff rnd self z =
           0.25 * mean4 (map4 (\<lambda>x. x ^ 2) (zip4 (-) (embedding (forward_ind rnd self z) weight) ze))
           + mean4 (map4 (\<lambda>x. x ^ 2) (zip4 (-) (embedding (forward_ind rnd self z) weight) ze))"
    and "is_tensor4 ze B H W (embedding_dim self)"
    and "is_tensor4 (embedding (forward_ind rnd self z) weight) B H W (embedding_dim self)"
    and "snd (VQVAEQuantize_forward rnd self z) =
           Inr (forward_z_q rnd self z, forward_diff rnd self z, forward_ind rnd self z)"
proof -
  show "snd (VQVAEQuantize_forward rnd self z) =
           Inr (forward_z_q rnd self z, forward_diff rnd self z, forward_ind rnd self z)"
    unfolding forward_ind_def forward_z_q_def forward_diff_def forward_unfold [OF ws] by simp
  show i: "forward_ind rnd self z = map (map (map (nearest weight))) ze"
    unfolding forward_ind_def forward_unfold [OF ws] ze_def weight_def by simp
  show "forward_z_q rnd self z =
           permute_0312 (zip4 (+) ze (detach (zip4 (-) (embedding (forward_ind rnd self z) weight) ze)))"
    unfolding i unfolding forward_z_q_def forward_unfold [OF ws] ze_def weight_def by simp
  show "forward_diff rnd self z =
           0.25 * mean4 (map4 (\<lambda>x. x ^ 2) (zip4 (-) (embedding (forward_ind rnd self z) weight) ze))
           + mean4 (map4 (\<lambda>x. x ^ 2) (zip4 (-) (embedding (forward_ind rnd self z) weight) ze))"
    unfolding i unfolding forward_diff_def forward_unfold [OF ws] ze_def weight_def
    by (simp add: detach_def)
  show zet: "is_tensor4 ze B H W (embedding_dim self)"
    unfolding ze_def using ws by (rule z_e_tensor)
  from ws have K: "0 < n_embed self"
    and cb: "is_mat weight (n_embed self) (embedding_dim self)"
    by (auto simp: well_shaped_def weight_def)
  show "is_tensor4 (embedding (forward_ind rnd self z) weight) B H W (embedding_dim self)"
    unfolding i using zet cb K by (rule embedding_tensor)
qed

lemma ws_z1: "well_shaped rnd0 self1 z1 1 1 1 3"
  by code_simp

lemma ind_z1: "forward_ind rnd0 self1 z1 = [[[0, 1, 0]]]"
  by code_simp

lemma cb_z1: "codebook rnd0 self1 z1 = [[1], [4]]"
  by code_simp

lemma zq_z1: "forward_z_q rnd0 self1 z1 = [[[[1, 4, 1]]]]"
  by code_simp

lemma diff_z1: "forward_diff rnd0 self1 z1 = 85 / 48"
  by code_simp

lemma ws_train: "well_shaped rnd0 self0 z1 1 1 1 3"
  by code_simp

lemma ind_train: "forward_ind rnd0 self0 z1 = [[[0, 1, 0]]]"
  by code_simp

lemma cb_train: "codebook rnd0 self0 z1 = [[5 / 2], [3]]"
  by code_simp

lemma diff_train: "forward_diff rnd0 self0 z1 = 125 / 48"
  by code_simp

lemma seeds_train:
  "training self0 \<and> data_initialized self0 = 0 \<and> \<not> isl (kmeans_result rnd0 self0 z1)"
  by code_simp

lemma n_embed_self0: "n_embed self0 = 2"
  by (simp add: self0_def)

lemma n_embed_self1: "n_embed self1 = 2"
  by (simp add: self1_def self0_def)

section \<open>The index and the straight-through value in exact arithmetic\<close>

text \<open>Over the reals the expansion \<open>\<parallel>a\<parallel>\<^sup>2 - 2 a b + \<parallel>b\<parallel>\<^sup>2\<close> is the squared distance, so the
  index selected at a location is the first index of a nearest codebook entry, and
  \<open>z_e + (z_q - z_e)\<close> is \<open>z_q\<close>, so the returned grid is the gathered codebook vectors.
  The program computes both in 32-bit floating point, where neither identity holds in
  general: for the one-dimensional vector \<open>4097\<close> and the entries \<open>4099\<close> and \<open>4096\<close> every
  product is rounded to 24 bits and the expansion gives 0 for both entries, so that the
  first one is selected although the second is nearer; and \<open>2\<^sup>2\<^sup>5 + (1 - 2\<^sup>2\<^sup>5)\<close> rounds to
  0. This development does not model rounding: the two lemmas of this section say what
  the formulas of the forward call mean over the reals, not what the call returns.\<close>

lemma nearest_neighbor_index_exact:
  assumes ws: "well_shaped rnd self z B C H W" and i: "b < B" "h < H" "w < W"
  shows "first_argmin (\<lambda>k. sqdist (projected self z b h w) (codebook rnd self z ! k))
           (n_embed self) (forward_ind rnd self z ! b ! h ! w) \<and>
         dist_expansion (reshape_rows (embedding_dim self) (z_e_of self z)) (codebook rnd self z) =
           map (\<lambda>r. map (\<lambda>c. sqdist r c) (codebook rnd self z))
               (reshape_rows (embedding_dim self) (z_e_of self z))"
proof
  let ?weight = "codebook rnd self z"
  let ?ze = "z_e_of self z"
  from ws have K: "0 < n_embed self" and E: "0 < embedding_dim self"
    and cb: "is_mat ?weight (n_embed self) (embedding_dim self)"
    and pos: "0 < B" "0 < H" "0 < W"
    by (auto simp: well_shaped_def)
  have zet: "is_tensor4 ?ze B H W (embedding_dim self)"
    using ws by (rule z_e_tensor)
  have len: "length ?weight = n_embed self" using cb by (rule is_mat_length)
  then have ne: "?weight \<noteq> []" using K by auto
  have "forward_ind rnd self z ! b ! h ! w = nearest ?weight (?ze ! b ! h ! w)"
    unfolding forward_parts(1) [OF ws]
    using zet i by (rule ind_nth)
  also have "\<dots> = nearest ?weight (projected self z b h w)"
    using z_e_nth [OF ws i] by simp
  finally show "first_argmin (\<lambda>k. sqdist (projected self z b h w) (?weight ! k))
           (n_embed self) (forward_ind rnd self z ! b ! h ! w)"
    using nearest_first_argmin [OF ne, of "projected self z b h w"] len by simp
  have F: "is_mat (concat (concat ?ze)) (B * H * W) (embedding_dim self)"
    unfolding is_mat_def
    using length_concat_tensor(1) [OF zet] tensor4_rows(3) [OF zet] by simp
  have N: "0 < B * H * W" using pos by simp
  show "dist_expansion (reshape_rows (embedding_dim self) ?ze) ?weight =
           map (\<lambda>r. map (\<lambda>c. sqdist r c) ?weight)
               (reshape_rows (embedding_dim self) ?ze)"
    unfolding reshape_rows_tensor [OF zet E]
    using F cb N K E by (rule dist_expansion_eq)
qed

lemma nearest_neighbor_index_example:
  "well_shaped rnd0 self1 z1 1 1 1 3 \<and>
   forward_ind rnd0 self1 z1 = [[[0, 1, 0]]] \<and>
   first_argmin (\<lambda>k. sqdist (projected self1 z1 0 0 2) ([[1], [4]] ! k)) 2 0 \<and>
   well_shaped rnd0 self0 z1 1 1 1 3 \<and>
   codebook rnd0 self0 z1 = [[5 / 2], [3]] \<and>
   forward_ind rnd0 self0 z1 = [[[0, 1, 0]]] \<and>
   first_argmin (\<lambda>k. sqdist (projected self0 z1 0 0 1) ([[5 / 2], [3]] ! k)) 2 1"
  using nearest_neighbor_index_exact [OF ws_z1, of 0 0 2] ws_z1 ind_z1 cb_z1
    nearest_neighbor_index_exact [OF ws_train, of 0 0 1] ws_train ind_train cb_train
  by (simp add: n_embed_self1 n_embed_self0)

lemma straight_through_value_exact:
  assumes ws: "well_shaped rnd self z B C H W"
  shows "zip4 (+) (z_e_of self z)
           (detach (zip4 (-) (embedding (forward_ind rnd self z) (codebook rnd self z))
                             (z_e_of self z)))
           = embedding (forward_ind rnd self z) (codebook rnd self z) \<and>
         forward_z_q rnd self z =
           permute_0312 (embedding (forward_ind rnd self z) (codebook rnd self z)) \<and>
         is_tensor4 (forward_z_q rnd self z) B (embedding_dim self) H W \<and>
         (\<forall>b<B. \<forall>e<embedding_dim self. \<forall>h<H. \<forall>w<W.
            forward_z_q rnd self z ! b ! e ! h ! w = gathered rnd self z b h w e)"
proof -
  let ?ze = "z_e_of self z"
  let ?zq = "embedding (forward_ind rnd self z) (codebook rnd self z)"
  note p = forward_parts [OF ws]
  from ws have pos: "0 < B" "0 < H" "0 < W" and E: "0 < embedding_dim self"
    by (auto simp: well_shaped_def)
  have cancel: "zip4 (+) ?ze (detach (zip4 (-) ?zq ?ze)) = ?zq"
    unfolding detach_def using p(5) p(4) by (rule zip4_add_sub)
  have out: "forward_z_q rnd self z = permute_0312 ?zq"
    unfolding p(2) cancel ..
  have shape: "is_tensor4 (forward_z_q rnd self z) B (embedding_dim self) H W"
    unfolding out using p(5) pos(1,2,3) by (rule permute_0312_tensor)
  have "forward_z_q rnd self z ! b ! e ! h ! w = gathered rnd self z b h w e"
    if "b < B" "e < embedding_dim self" "h < H" "w < W" for b e h w
  proof -
    have "forward_z_q rnd self z ! b ! e ! h ! w = ?zq ! b ! h ! w ! e"
      unfolding out using p(5) pos(1,2,3) that(1,3,4,2) by (rule permute_0312_nth)
    also have "?zq ! b ! h ! w = codebook rnd self z ! (forward_ind rnd self z ! b ! h ! w)"
      unfolding p(1) using p(4) that(1,3,4)
      by (simp add: embedding_nth [OF p(4)] ind_nth [OF p(4)])
    finally show ?thesis by (simp add: gathered_def)
  qed
  with cancel out shape show ?thesis by blast
qed

lemma straight_through_value_example:
  "well_shaped rnd0 self1 z1 1 1 1 3 \<and>
   forward_z_q rnd0 self1 z1 = [[[[1, 4, 1]]]] \<and>
   forward_z_q rnd0 self1 z1 = permute_0312 (embedding [[[0, 1, 0]]] [[1], [4]])"
  using straight_through_value_exact [OF ws_z1] ws_z1 ind_z1 cb_z1 zq_z1
  by simp

section \<open>The auxiliary loss of the nearest-neighbor quantizer\<close>

text \<open>
  Claim C4. The auxiliary loss is 0.25 times the mean squared error between the gathered
  codebook vectors and the projected vectors plus that mean squared error once more, the
  mean being the plain mean of the squared differences over all \<open>B H W embedding_dim\<close>
  elements (detaching changes no value). A well-shaped call returns, and this is the loss
  it returns.
\<close>

theorem auxiliary_loss:
  assumes ws: "well_shaped rnd self z B C H W"
  shows "forward_diff rnd self z =
           0.25 * mse_spec (gathered rnd self z) (projected_at self z) B H W (embedding_dim self)
           + mse_spec (gathered rnd self z) (projected_at self z) B H W (embedding_dim self) \<and>
         snd (VQVAEQuantize_forward rnd self z) =
           Inr (forward_z_q rnd self z, forward_diff rnd self z, forward_ind rnd self z)"
proof -
  let ?ze = "z_e_of self z"
  let ?zq = "embedding (forward_ind rnd self z) (codebook rnd self z)"
  note p = forward_parts [OF ws]
  have q: "?zq ! b ! h ! w ! e = gathered rnd self z b h w e"
    if "b < B" "h < H" "w < W" "e < embedding_dim self" for b h w e
  proof -
    have "?zq ! b ! h ! w = codebook rnd self z ! (forward_ind rnd self z ! b ! h ! w)"
      unfolding p(1) using p(4) that(1,2,3)
      by (simp add: embedding_nth [OF p(4)] ind_nth [OF p(4)])
    then show ?thesis by (simp add: gathered_def)
  qed
  have e: "?ze ! b ! h ! w ! e = projected_at self z b h w e"
    if "b < B" "h < H" "w < W" "e < embedding_dim self" for b h w e
    using that by (simp add: z_e_nth [OF ws that(1,2,3)] projected_def projected_at_def)
  have "mean4 (map4 (\<lambda>x. x ^ 2) (zip4 (-) ?zq ?ze)) =
          mse_spec (gathered rnd self z) (projected_at self z) B H W (embedding_dim self)"
    using p(5) p(4) q e by (rule mean4_mse)
  then have "forward_diff rnd self z =
           0.25 * mse_spec (gathered rnd self z) (projected_at self z) B H W (embedding_dim self)
           + mse_spec (gathered rnd self z) (projected_at self z) B H W (embedding_dim self)"
    unfolding p(3) by simp
  then show ?thesis using p(6) by (rule conjI)
qed

theorem auxiliary_loss_witness:
  "well_shaped rnd0 self1 z1 1 1 1 3 \<and>
   forward_diff rnd0 self1 z1 = 85 / 48 \<and>
   mse_spec (gathered rnd0 self1 z1) (projected_at self1 z1) 1 1 3 (embedding_dim self1) = 17 / 12 \<and>
   snd (VQVAEQuantize_forward rnd0 self1 z1) = Inr ([[[[1, 4, 1]]]], 85 / 48, [[[0, 1, 0]]]) \<and>
   well_shaped rnd0 self0 z1 1 1 1 3 \<and>
   training self0 \<and> data_initialized self0 = 0 \<and> \<not> isl (kmeans_result rnd0 self0 z1) \<and>
   forward_diff rnd0 self0 z1 = 125 / 48 \<and>
   mse_spec (gathered rnd0 self0 z1) (projected_at self0 z1) 1 1 3 (embedding_dim self0) = 25 / 12"
  using auxiliary_loss [OF ws_z1] ws_z1 diff_z1 zq_z1 ind_z1
    auxiliary_loss [OF ws_train] ws_train diff_train seeds_train
  by simp

section \<open>The Gumbel-softmax quantizer\<close>

lemma logits_tensor:
  assumes "logits_shaped self z B C H W"
  shows "is_tensor4 (logits_of self z) B (n_embed self) H W"
proof -
  from assms have z: "is_tensor4 z B C H W" and pos: "0 < B" "0 < C" "0 < H"
    and len: "length (proj_weight self) = n_embed self" "length (proj_bias self) = n_embed self"
    by (auto simp: logits_shaped_def is_mat_def)
  show ?thesis
    unfolding logits_of_def using z pos len by (rule Conv2d_1x1_tensor)
qed

lemma tensor4_hd:
  assumes t: "is_tensor4 t n0 n1 n2 n3" and i: "i0 < n0" and pos: "0 < n1" "0 < n2"
  shows "length (hd (t ! i0)) = n2" "length (hd (hd (t ! i0))) = n3"
proof -
  from t i pos have a: "t ! i0 \<noteq> []" "length (t ! i0 ! 0) = n2" "length (t ! i0 ! 0 ! 0) = n3"
    by (auto simp: is_tensor4_nth)
  then have b: "t ! i0 ! 0 \<noteq> []" using pos by auto
  show "length (hd (t ! i0)) = n2" using a by (simp add: hd_conv_nth)
  show "length (hd (hd (t ! i0))) = n3" using a b by (simp add: hd_conv_nth)
qed

lemma sum_dim0_nth:
  assumes "length (hd x) = H" "length (hd (hd x)) = W" "h < H" "w < W"
  shows "sum_dim0 x ! h ! w = (\<Sum>k\<leftarrow>[0..<length x]. x ! k ! h ! w)"
proof -
  have "sum_list (map (\<lambda>xn. xn ! h ! w) x) = (\<Sum>k\<leftarrow>[0..<length x]. x ! k ! h ! w)"
    by (rule sum_list_map_nth)
  then show ?thesis using assms by (simp add: sum_dim0_def)
qed

lemma sum_dim0_mat:
  assumes "length (hd x) = H" "length (hd (hd x)) = W"
  shows "is_mat (sum_dim0 x) H W"
  using assms by (simp add: sum_dim0_def is_mat_def list_all_iff)

lemma softmax_slice:
  assumes x: "length x = N" "\<forall>k<N. length (x ! k) = H \<and> (\<forall>h<H. length (x ! k ! h) = W)"
    and pos: "0 < N" "0 < H"
  defines "y \<equiv> softmax_dim0 x"
  shows "length y = N"
    and "\<forall>k<N. length (y ! k) = H \<and> (\<forall>h<H. length (y ! k ! h) = W)"
    and "\<forall>k<N. \<forall>h<H. \<forall>w<W. y ! k ! h ! w = softmax_spec (\<lambda>j. x ! j ! h ! w) N k"
proof -
  let ?e = "map (map (map exp)) x"
  have le: "length ?e = N" using x by simp
  have e0: "?e \<noteq> []" using le pos by auto
  have hd1: "length (hd ?e) = H"
    using x pos e0 by (simp add: hd_conv_nth)
  have "hd ?e \<noteq> []" using hd1 pos by auto
  then have hd2: "length (hd (hd ?e)) = W"
    using x pos e0 by (simp add: hd_conv_nth)
  have tot: "is_mat (sum_dim0 ?e) H W" using hd1 hd2 by (rule sum_dim0_mat)
  have y: "y = map (\<lambda>en. map2 (map2 (/)) en (sum_dim0 ?e)) ?e"
    by (simp add: y_def softmax_dim0_def Let_def)
  show "length y = N" using x by (simp add: y)
  show "\<forall>k<N. length (y ! k) = H \<and> (\<forall>h<H. length (y ! k ! h) = W)"
    using x tot by (simp add: y is_mat_def list_all_length)
  show "\<forall>k<N. \<forall>h<H. \<forall>w<W. y ! k ! h ! w = softmax_spec (\<lambda>j. x ! j ! h ! w) N k"
  proof (intro allI impI)
    fix k h w assume i: "k < N" "h < H" "w < W"
    have s: "sum_dim0 ?e ! h ! w = (\<Sum>j\<leftarrow>[0..<N]. exp (x ! j ! h ! w))"
      unfolding sum_dim0_nth [OF hd1 hd2 i(2,3)] le
      using x i by (intro sum_list_upt_cong) simp
    have "y ! k ! h ! w = exp (x ! k ! h ! w) / sum_dim0 ?e ! h ! w"
      using x tot i by (simp add: y is_mat_def list_all_length)
    then show "y ! k ! h ! w = softmax_spec (\<lambda>j. x ! j ! h ! w) N k"
      by (simp add: s softmax_spec_def)
  qed
qed

lemma softmax_tensor:
  assumes t: "is_tensor4 t B N H W" and pos: "0 < N" "0 < H"
  shows "is_tensor4 (softmax_dim1 t) B N H W"
    and "\<forall>b<B. \<forall>k<N. \<forall>h<H. \<forall>w<W.
           softmax_dim1 t ! b ! k ! h ! w = softmax_spec (\<lambda>j. t ! b ! j ! h ! w) N k"
proof -
  have l: "length t = B" using t by (simp add: is_tensor4_nth)
  have slice: "length (t ! b) = N"
      "\<forall>k<N. length (t ! b ! k) = H \<and> (\<forall>h<H. length (t ! b ! k ! h) = W)" if "b < B" for b
    using t that by (simp_all add: is_tensor4_nth)
  show "is_tensor4 (softmax_dim1 t) B N H W"
    unfolding is_tensor4_nth
    using softmax_slice(1,2) [OF slice pos] l
    by (simp add: softmax_dim1_def)
  show "\<forall>b<B. \<forall>k<N. \<forall>h<H. \<forall>w<W.
           softmax_dim1 t ! b ! k ! h ! w = softmax_spec (\<lambda>j. t ! b ! j ! h ! w) N k"
    using softmax_slice(3) [OF slice pos] l
    by (simp add: softmax_dim1_def)
qed

lemma is_tensor3_nth:
  "is_tensor3 t n1 n2 n3 \<longleftrightarrow>
     length t = n1 \<and> (\<forall>a<n1. length (t ! a) = n2 \<and> (\<forall>b<n2. length (t ! a ! b) = n3))"
  by (auto simp: is_tensor3_def is_mat_def list_all_length)

lemma length_concat_rows:
  "list_all (\<lambda>r. length r = n) xss \<Longrightarrow> length (concat xss) = length xss * n"
  by (induction xss) auto

lemma length_concat_tensor3:
  assumes "is_tensor3 t n1 n2 n3"
  shows "length (concat (concat t)) = n1 * n2 * n3"
proof -
  have 1: "list_all (\<lambda>r. length r = n2) t" "list_all (\<lambda>r. length r = n3) (concat t)"
    using assms by (auto simp: is_tensor3_def is_mat_def list_all_iff)
  have "length (concat t) = n1 * n2"
    using length_concat_rows [OF 1(1)] assms by (simp add: is_tensor3_def)
  then show ?thesis using length_concat_rows [OF 1(2)] by simp
qed

lemma sum_tensor3:
  fixes t :: tensor3
  assumes t: "is_tensor3 t n1 n2 n3"
  shows "sum_list (concat (concat t)) =
           (\<Sum>i1\<leftarrow>[0..<n1]. \<Sum>i2\<leftarrow>[0..<n2]. \<Sum>i3\<leftarrow>[0..<n3]. t ! i1 ! i2 ! i3)"
proof -
  have l1: "length t = n1" using t by (simp add: is_tensor3_nth)
  have "sum_list (concat (concat t)) = (\<Sum>i1\<leftarrow>[0..<n1]. sum_list (concat (t ! i1)))"
    by (simp only: sum_concat2 l1)
  also have "\<dots> = (\<Sum>i1\<leftarrow>[0..<n1]. \<Sum>i2\<leftarrow>[0..<n2]. \<Sum>i3\<leftarrow>[0..<n3]. t ! i1 ! i2 ! i3)"
  proof (rule sum_list_upt_cong)
    fix i1 assume i1: "i1 < n1"
    then have l2: "length (t ! i1) = n2" using t by (simp add: is_tensor3_nth)
    have "sum_list (concat (t ! i1)) = (\<Sum>i2\<leftarrow>[0..<n2]. sum_list (t ! i1 ! i2))"
      by (simp only: sum_concat_nth l2)
    also have "\<dots> = (\<Sum>i2\<leftarrow>[0..<n2]. \<Sum>i3\<leftarrow>[0..<n3]. t ! i1 ! i2 ! i3)"
    proof (rule sum_list_upt_cong)
      fix i2 assume i2: "i2 < n2"
      then have l3: "length (t ! i1 ! i2) = n3" using t i1 by (simp add: is_tensor3_nth)
      show "sum_list (t ! i1 ! i2) = (\<Sum>i3\<leftarrow>[0..<n3]. t ! i1 ! i2 ! i3)"
        using sum_list_map_nth [of "\<lambda>x. x" "t ! i1 ! i2"] l3 by simp
    qed
    finally show "sum_list (concat (t ! i1)) =
                   (\<Sum>i2\<leftarrow>[0..<n2]. \<Sum>i3\<leftarrow>[0..<n3]. t ! i1 ! i2 ! i3)" .
  qed
  finally show ?thesis .
qed

lemma sum_dim1_tensor:
  assumes t: "is_tensor4 t B N H W" and pos: "0 < N" "0 < H"
  shows "is_tensor3 (sum_dim1 t) B H W"
    and "\<forall>b<B. \<forall>h<H. \<forall>w<W. sum_dim1 t ! b ! h ! w = (\<Sum>k\<leftarrow>[0..<N]. t ! b ! k ! h ! w)"
proof -
  have l: "length t = B" using t by (simp add: is_tensor4_nth)
  have lb: "length (t ! b) = N" if "b < B" for b
    using t that by (simp add: is_tensor4_nth)
  have m: "is_mat (sum_dim0 (t ! b)) H W" if "b < B" for b
    using tensor4_hd [OF t that pos] by (rule sum_dim0_mat)
  show "is_tensor3 (sum_dim1 t) B H W"
    unfolding is_tensor3_def sum_dim1_def
    using m l by (simp add: list_all_length)
  show "\<forall>b<B. \<forall>h<H. \<forall>w<W. sum_dim1 t ! b ! h ! w = (\<Sum>k\<leftarrow>[0..<N]. t ! b ! k ! h ! w)"
  proof (intro allI impI)
    fix b h w assume i: "b < B" "h < H" "w < W"
    show "sum_dim1 t ! b ! h ! w = (\<Sum>k\<leftarrow>[0..<N]. t ! b ! k ! h ! w)"
      using sum_dim0_nth [OF tensor4_hd [OF t i(1) pos] i(2,3)] i(1) l lb [OF i(1)]
      by (simp add: sum_dim1_def)
  qed
qed

lemma sum3_cong:
  assumes "\<And>i1 i2 i3. i1 < n1 \<Longrightarrow> i2 < n2 \<Longrightarrow> i3 < n3 \<Longrightarrow> f i1 i2 i3 = (g i1 i2 i3 :: real)"
  shows "(\<Sum>i1\<leftarrow>[0..<n1]. \<Sum>i2\<leftarrow>[0..<n2]. \<Sum>i3\<leftarrow>[0..<n3]. f i1 i2 i3) =
         (\<Sum>i1\<leftarrow>[0..<n1]. \<Sum>i2\<leftarrow>[0..<n2]. \<Sum>i3\<leftarrow>[0..<n3]. g i1 i2 i3)"
  by (intro sum_list_upt_cong assms)

lemma argmax_less: "xs \<noteq> [] \<Longrightarrow> argmax xs < length xs"
  using argmax_first [of xs] by simp

lemma argmax_dim1_nth:
  assumes t: "is_tensor4 t B N H W" and pos: "0 < N" "0 < H" and i: "b < B" "h < H" "w < W"
  shows "argmax_dim1 t ! b ! h ! w = argmax (map (\<lambda>xn. xn ! h ! w) (t ! b))"
    and "argmax_dim1 t ! b ! h ! w < N"
proof -
  have l: "length t = B" "length (t ! b) = N" using t i by (simp_all add: is_tensor4_nth)
  show 1: "argmax_dim1 t ! b ! h ! w = argmax (map (\<lambda>xn. xn ! h ! w) (t ! b))"
    using tensor4_hd [OF t i(1) pos] i l by (simp add: argmax_dim1_def)
  have "map (\<lambda>xn. xn ! h ! w) (t ! b) \<noteq> []" using l pos by auto
  from argmax_less [OF this] show "argmax_dim1 t ! b ! h ! w < N"
    unfolding 1 using l by simp
qed

lemma argmax_dim1_lengths:
  assumes t: "is_tensor4 t B N H W" and pos: "0 < N" "0 < H"
  shows "length (argmax_dim1 t) = B"
    and "\<forall>b<B. length (argmax_dim1 t ! b) = H \<and> (\<forall>h<H. length (argmax_dim1 t ! b ! h) = W)"
proof -
  have l: "length t = B" using t by (simp add: is_tensor4_nth)
  show "length (argmax_dim1 t) = B" using l by (simp add: argmax_dim1_def)
  show "\<forall>b<B. length (argmax_dim1 t ! b) = H \<and> (\<forall>h<H. length (argmax_dim1 t ! b ! h) = W)"
  proof (intro allI impI)
    fix b assume b: "b < B"
    show "length (argmax_dim1 t ! b) = H \<and> (\<forall>h<H. length (argmax_dim1 t ! b ! h) = W)"
      using tensor4_hd [OF t b pos] b l by (simp add: argmax_dim1_def)
  qed
qed

lemma scatter_dim1_tensor:
  assumes "length index = B"
    and "\<forall>b<B. length (index ! b) = H \<and> (\<forall>h<H. length (index ! b ! h) = W)"
  shows "is_tensor4 (scatter_dim1 n index) B n H W"
    and "\<forall>b<B. \<forall>k<n. \<forall>h<H. \<forall>w<W.
           scatter_dim1 n index ! b ! k ! h ! w = (if index ! b ! h ! w = k then 1 else 0)"
  using assms by (simp_all add: scatter_dim1_def is_tensor4_nth)

lemma one_hot_vector:
  assumes "k < n"
  shows "is_one_hot (map (\<lambda>j. if k = j then 1 else 0) [0..<n])"
proof -
  have "map (\<lambda>j. if k = j then 1 else 0) [0..<n] = (replicate n (0::real))[k := 1]"
    using assms by (intro nth_equalityI) (auto simp: nth_list_update)
  then have "one_hot (map (\<lambda>j. if k = j then 1 else 0) [0..<n]) k"
    using assms by (simp add: one_hot_def)
  then show ?thesis
    using assms by (auto simp: is_one_hot_def list_ex_iff)
qed

lemma ls0: "logits_shaped gself0 zg 1 1 1 1"
  by (simp add: logits_shaped_def gself0_def zg_def is_tensor4_def is_tensor3_def is_mat_def)

lemma g0_tensor: "is_tensor4 g0 1 (n_embed gself0) 1 1"
  by (simp add: g0_def gself0_def is_tensor4_def is_tensor3_def is_mat_def)

lemma logits0: "logits_of gself0 zg = [[[[0]], [[0]]]]"
  by (simp add: logits_of_def gself0_def zg_def Conv2d_1x1_def size4_def dot_def)

lemma soft0: "Gumbel_soft_one_hot g0 gself0 zg = [[[[1]], [[0]]]]"
  using logits0
  by (simp add: Gumbel_soft_one_hot_def logits_of_def Gumbel_hard_def gumbel_softmax_def Let_def
        g0_def zip4_def softmax_dim1_def softmax_dim0_def sum_dim0_def argmax_dim1_def argmax_def
        scatter_dim1_def detach_def gself0_def)

lemma kl0: "kl_spec (\<lambda>b k h w. [[[[0]], [[0]]]] ! b ! k ! h ! w) 1 2 1 1
              = 5 / 10 ^ 4 * ln (1 + 1 / 10 ^ 10)"
  by (simp add: kl_spec_def softmax_spec_def numeral_2_eq_2)

text \<open>
  Claim C5. In evaluation mode the hardness is forced on whatever the configured
  \<open>straight_through\<close> flag is, and in training mode it is that flag; and whenever the
  hardness is on, so in particular in evaluation mode, the mixing weights over the
  \<open>n_embed\<close> categories at every location are a one-hot vector.
\<close>

theorem gumbel_hardness:
  assumes ls: "logits_shaped self z B C H W"
    and g: "is_tensor4 gumbels B (n_embed self) H W"
  shows "(\<not> training self \<longrightarrow> Gumbel_hard self) \<and>
         (training self \<longrightarrow> Gumbel_hard self = straight_through self) \<and>
         (Gumbel_hard self \<longrightarrow>
            (\<forall>b<B. \<forall>h<H. \<forall>w<W.
               is_one_hot (map (\<lambda>k. Gumbel_soft_one_hot gumbels self z ! b ! k ! h ! w)
                               [0..<n_embed self])))"
proof (intro conjI impI allI)
  show "Gumbel_hard self" if "\<not> training self"
    using that by (simp add: Gumbel_hard_def)
  show "Gumbel_hard self = straight_through self" if "training self"
    using that by (simp add: Gumbel_hard_def)
next
  fix b h w
  assume hard: "Gumbel_hard self" and i: "b < B" "h < H" "w < W"
  let ?N = "n_embed self"
  let ?L = "logits_of self z"
  let ?g = "zip4 (\<lambda>l n. (l + n) / temperature self) ?L gumbels"
  let ?y = "softmax_dim1 ?g"
  let ?index = "argmax_dim1 ?y"
  let ?hard = "scatter_dim1 ?N ?index"
  from ls have pos: "0 < ?N" "0 < H" "0 < B" by (auto simp: logits_shaped_def)
  have L: "is_tensor4 ?L B ?N H W" using ls by (rule logits_tensor)
  have hdL: "length (hd ?L) = ?N"
    using L pos by (cases ?L) (auto simp: is_tensor4_nth)
  have G: "is_tensor4 ?g B ?N H W" using L g by (rule zip4_tensor)
  have Y: "is_tensor4 ?y B ?N H W" using G pos(1,2) by (rule softmax_tensor(1))
  note idx = argmax_dim1_lengths [OF Y pos(1,2)]
  note sc = scatter_dim1_tensor [OF idx, of ?N]
  have D: "is_tensor4 (zip4 (-) ?hard ?y) B ?N H W" using sc(1) Y by (rule zip4_tensor)
  have soft: "Gumbel_soft_one_hot gumbels self z = zip4 (+) (zip4 (-) ?hard ?y) ?y"
    using hard
    by (simp add: Gumbel_soft_one_hot_def gumbel_softmax_def Let_def detach_def hdL
          logits_of_def [symmetric])
  let ?k = "?index ! b ! h ! w"
  have kN: "?k < ?N" using Y pos(1,2) i by (rule argmax_dim1_nth(2))
  have "Gumbel_soft_one_hot gumbels self z ! b ! k ! h ! w = (if ?k = k then 1 else 0)"
    if k: "k < ?N" for k
  proof -
    have "?hard ! b ! k ! h ! w = (if ?k = k then 1 else 0)"
      using sc(2) i k by simp
    then show ?thesis
      unfolding soft zip4_nth [OF D Y i(1) k i(2,3)] zip4_nth [OF sc(1) Y i(1) k i(2,3)]
      by simp
  qed
  then have eq: "map (\<lambda>k. Gumbel_soft_one_hot gumbels self z ! b ! k ! h ! w) [0..<?N] =
             map (\<lambda>j. if ?k = j then 1 else 0) [0..<?N]"
    by (intro map_cong) auto
  show "is_one_hot (map (\<lambda>k. Gumbel_soft_one_hot gumbels self z ! b ! k ! h ! w)
                               [0..<?N])"
    unfolding eq using kN by (rule one_hot_vector)
qed

theorem gumbel_hardness_witness:
  "logits_shaped gself0 zg 1 1 1 1 \<and> is_tensor4 g0 1 (n_embed gself0) 1 1 \<and>
   \<not> training gself0 \<and> \<not> straight_through gself0 \<and> Gumbel_hard gself0 \<and>
   Gumbel_soft_one_hot g0 gself0 zg = [[[[1]], [[0]]]] \<and>
   is_one_hot (map (\<lambda>k. Gumbel_soft_one_hot g0 gself0 zg ! 0 ! k ! 0 ! 0) [0..<n_embed gself0]) \<and>
   training (gself0\<lparr>training := True\<rparr>) \<and>
   Gumbel_hard (gself0\<lparr>training := True\<rparr>) = straight_through (gself0\<lparr>training := True\<rparr>)"
proof -
  have ls: "logits_shaped (gself0\<lparr>training := True\<rparr>) zg 1 1 1 1"
    using ls0 by (simp add: logits_shaped_def)
  have g: "is_tensor4 g0 1 (n_embed (gself0\<lparr>training := True\<rparr>)) 1 1"
    using g0_tensor by simp
  show ?thesis
    using gumbel_hardness [OF ls0 g0_tensor] gumbel_hardness [OF ls g] ls0 g0_tensor soft0
    by (simp add: gself0_def)
qed

text \<open>
  Claim C6. The auxiliary loss of the Gumbel-softmax quantizer is 5e-4 times the mean over
  the \<open>B H W\<close> locations of the sum over the categories of
  \<open>q ln (q n_embed + 1e-10)\<close>, where \<open>q\<close> is the softmax of the logits over the categories;
  the noise does not enter it.
\<close>

theorem gumbel_kl_loss:
  assumes ls: "logits_shaped self z B C H W"
  shows "Gumbel_diff gumbels self z =
           kl_spec (\<lambda>b k h w. logits_of self z ! b ! k ! h ! w) B (n_embed self) H W"
proof -
  let ?N = "n_embed self"
  let ?L = "logits_of self z"
  let ?l = "\<lambda>b k h w. ?L ! b ! k ! h ! w"
  let ?qy = "softmax_dim1 ?L"
  let ?arg = "map4 ln (map4 (\<lambda>x. x + 1 / 10 ^ 10) (map4 (\<lambda>x. x * real ?N) ?qy))"
  let ?T = "zip4 (*) ?qy ?arg"
  from ls have pos: "0 < ?N" "0 < H" by (auto simp: logits_shaped_def)
  have L: "is_tensor4 ?L B ?N H W" using ls by (rule logits_tensor)
  note q = softmax_tensor [OF L pos]
  have arg: "is_tensor4 ?arg B ?N H W"
    by (intro map4_tensor q(1))
  have T: "is_tensor4 ?T B ?N H W" using q(1) arg by (rule zip4_tensor)
  have Tn: "?T ! b ! k ! h ! w =
              softmax_spec (\<lambda>j. ?l b j h w) ?N k
              * ln (softmax_spec (\<lambda>j. ?l b j h w) ?N k * real ?N + 1 / 10 ^ 10)"
    if i: "b < B" "k < ?N" "h < H" "w < W" for b k h w
  proof -
    have 1: "is_tensor4 (map4 (\<lambda>x. x * real ?N) ?qy) B ?N H W" by (intro map4_tensor q(1))
    have 2: "is_tensor4 (map4 (\<lambda>x. x + 1 / 10 ^ 10) (map4 (\<lambda>x. x * real ?N) ?qy)) B ?N H W"
      by (intro map4_tensor q(1))
    have "softmax_dim1 ?L ! b ! k ! h ! w = softmax_spec (\<lambda>j. ?l b j h w) ?N k"
      using q(2) i by simp
    then show ?thesis
      unfolding zip4_nth [OF q(1) arg i] map4_nth [OF 2 i] map4_nth [OF 1 i]
        map4_nth [OF q(1) i]
      by (simp only:)
  qed
  note S = sum_dim1_tensor [OF T pos]
  have "sum_list (concat (concat (sum_dim1 ?T))) =
          (\<Sum>b\<leftarrow>[0..<B]. \<Sum>h\<leftarrow>[0..<H]. \<Sum>w\<leftarrow>[0..<W]. sum_dim1 ?T ! b ! h ! w)"
    using S(1) by (rule sum_tensor3)
  also have "\<dots> = (\<Sum>b\<leftarrow>[0..<B]. \<Sum>h\<leftarrow>[0..<H]. \<Sum>w\<leftarrow>[0..<W]. \<Sum>k\<leftarrow>[0..<?N].
              softmax_spec (\<lambda>j. ?l b j h w) ?N k
              * ln (softmax_spec (\<lambda>j. ?l b j h w) ?N k * real ?N + 1 / 10 ^ 10))"
  proof (rule sum3_cong)
    fix b h w assume i: "b < B" "h < H" "w < W"
    have "sum_dim1 ?T ! b ! h ! w = (\<Sum>k\<leftarrow>[0..<?N]. ?T ! b ! k ! h ! w)"
      using S(2) i by simp
    also have "\<dots> = (\<Sum>k\<leftarrow>[0..<?N].
              softmax_spec (\<lambda>j. ?l b j h w) ?N k
              * ln (softmax_spec (\<lambda>j. ?l b j h w) ?N k * real ?N + 1 / 10 ^ 10))"
      by (rule sum_list_upt_cong) (rule Tn [OF i(1) _ i(2,3)])
    finally show "sum_dim1 ?T ! b ! h ! w = (\<Sum>k\<leftarrow>[0..<?N].
              softmax_spec (\<lambda>j. ?l b j h w) ?N k
              * ln (softmax_spec (\<lambda>j. ?l b j h w) ?N k * real ?N + 1 / 10 ^ 10))" .
  qed
  finally have sum: "sum_list (concat (concat (sum_dim1 ?T))) =
      (\<Sum>b\<leftarrow>[0..<B]. \<Sum>h\<leftarrow>[0..<H]. \<Sum>w\<leftarrow>[0..<W]. \<Sum>k\<leftarrow>[0..<?N].
              softmax_spec (\<lambda>j. ?l b j h w) ?N k
              * ln (softmax_spec (\<lambda>j. ?l b j h w) ?N k * real ?N + 1 / 10 ^ 10))" .
  have "Gumbel_diff gumbels self z = 5 / 10 ^ 4 * mean3 (sum_dim1 ?T)"
    by (simp add: Gumbel_diff_def GumbelQuantize_forward_def Let_def logits_of_def)
  also have "\<dots> = kl_spec ?l B ?N H W"
    unfolding mean3_def Let_def sum length_concat_tensor3 [OF S(1)] kl_spec_def ..
  finally show ?thesis .
qed

theorem gumbel_kl_loss_witness:
  "logits_shaped gself0 zg 1 1 1 1 \<and>
   Gumbel_diff g0 gself0 zg = 5 / 10 ^ 4 * ln (1 + 1 / 10 ^ 10)"
  using gumbel_kl_loss [OF ls0, of g0] ls0 logits0 kl0
  by (simp add: gself0_def)

section \<open>Shapes of the quantizers' results\<close>

text \<open>The shape the shape-level model gives a quantizer is the shape of the quantized
  grid its forward call computes.\<close>

lemma einsum_tensor:
  assumes a: "is_tensor4 a B N H W" and pos: "0 < B" "0 < N" "0 < H"
    and w: "is_mat weight N D"
  shows "is_tensor4 (einsum_bnhw_nd a weight) B D H W"
proof -
  have l: "length a = B" using a by (simp add: is_tensor4_def)
  have hd: "length (hd weight) = D" using w pos(2) by (rule is_mat_hd)
  show ?thesis
    unfolding einsum_bnhw_nd_def size4_tensor [OF a pos] prod.case hd
    using l by (auto simp: is_tensor4_def is_tensor3_def is_mat_def list_all_iff)
qed

lemma soft_one_hot_tensor:
  assumes ls: "logits_shaped self z B C H W"
    and g: "is_tensor4 gumbels B (n_embed self) H W"
  shows "is_tensor4 (Gumbel_soft_one_hot gumbels self z) B (n_embed self) H W"
proof -
  let ?N = "n_embed self"
  let ?L = "logits_of self z"
  let ?g = "zip4 (\<lambda>l n. (l + n) / temperature self) ?L gumbels"
  let ?y = "softmax_dim1 ?g"
  from ls have pos: "0 < ?N" "0 < H" "0 < B" by (auto simp: logits_shaped_def)
  have L: "is_tensor4 ?L B ?N H W" using ls by (rule logits_tensor)
  have hdL: "length (hd ?L) = ?N"
    using L pos by (cases ?L) (auto simp: is_tensor4_nth)
  have G: "is_tensor4 ?g B ?N H W" using L g by (rule zip4_tensor)
  have Y: "is_tensor4 ?y B ?N H W" using G pos(1,2) by (rule softmax_tensor(1))
  note idx = argmax_dim1_lengths [OF Y pos(1,2)]
  note sc = scatter_dim1_tensor [OF idx, of ?N]
  have D: "is_tensor4 (zip4 (-) (scatter_dim1 ?N (argmax_dim1 ?y)) ?y) B ?N H W"
    using sc(1) Y by (rule zip4_tensor)
  have H: "is_tensor4 (zip4 (+) (zip4 (-) (scatter_dim1 ?N (argmax_dim1 ?y)) ?y) ?y) B ?N H W"
    using D Y by (rule zip4_tensor)
  show ?thesis
    using H Y
    by (simp add: Gumbel_soft_one_hot_def gumbel_softmax_def Let_def detach_def hdL
          logits_of_def [symmetric])
qed

lemma quantizer_shape_VQVAEQuantize:
  assumes ws: "well_shaped rnd q z B C H W"
    and rows: "training q \<and> data_initialized q = 0 \<longrightarrow> km (min (B * H * W) 20000) (n_embed q) = None"
  shows "quantizer_shape km (VQVAEQuantize q) (B, C, H, W) = Inr (B, embedding_dim q, H, W)"
    and "is_tensor4 (forward_z_q rnd q z) B (embedding_dim q) H W"
proof -
  from ws have pos: "0 < B" "0 < H" "0 < W" and c: "proj_in_channels q = C" "0 < C"
    and d: "0 < embedding_dim q" "0 < n_embed q"
    by (auto simp: well_shaped_def)
  show "quantizer_shape km (VQVAEQuantize q) (B, C, H, W) = Inr (B, embedding_dim q, H, W)"
    using VQVAEQuantize_shape [of H W q km B] pos c d rows by auto
  note p = forward_parts [OF ws]
  have d: "is_tensor4 (zip4 (-) (embedding (forward_ind rnd q z) (codebook rnd q z)) (z_e_of q z))
          B H W (embedding_dim q)"
    using p(5) p(4) by (rule zip4_tensor)
  have "is_tensor4 (zip4 (+) (z_e_of q z)
          (detach (zip4 (-) (embedding (forward_ind rnd q z) (codebook rnd q z)) (z_e_of q z))))
          B H W (embedding_dim q)"
    unfolding detach_def using p(4) d by (rule zip4_tensor)
  then show "is_tensor4 (forward_z_q rnd q z) B (embedding_dim q) H W"
    unfolding p(2) using pos by (rule permute_0312_tensor)
qed

lemma quantizer_shape_GumbelQuantize:
  assumes ls: "logits_shaped q z B C H W"
    and g: "is_tensor4 gumbels B (n_embed q) H W"
    and w: "is_mat (embed_weight q) (n_embed q) (embedding_dim q)"
  shows "quantizer_shape km (GumbelQuantize q) (B, C, H, W) = Inr (B, embedding_dim q, H, W)"
    and "is_tensor4 (fst (GumbelQuantize_forward gumbels q z)) B (embedding_dim q) H W"
proof -
  from ls have pos: "0 < B" "0 < n_embed q" "0 < H" and c: "proj_in_channels q = C"
    and pos': "0 < C" "0 < W"
    by (auto simp: logits_shaped_def)
  show "quantizer_shape km (GumbelQuantize q) (B, C, H, W) = Inr (B, embedding_dim q, H, W)"
    using GumbelQuantize_shape [of H W q km B] pos c pos' by auto
  have "is_tensor4 (einsum_bnhw_nd (Gumbel_soft_one_hot gumbels q z) (embed_weight q))
          B (embedding_dim q) H W"
    using soft_one_hot_tensor [OF ls g] pos w by (rule einsum_tensor)
  then show "is_tensor4 (fst (GumbelQuantize_forward gumbels q z)) B (embedding_dim q) H W"
    by (simp add: GumbelQuantize_forward_def Let_def)
qed

section \<open>The perplexity diagnostic in exact arithmetic\<close>

text \<open>Over the reals the floor inside the logarithm shows: uniform use of \<open>n\<close> codes gives
  \<open>n / (1 + n 1e-10)\<close> and a single code gives \<open>1 / (1 + 1e-10)\<close>. That the program
  returns \<open>n\<close> and \<open>1\<close> up to tolerance is a fact of 32-bit rounding, which this
  development does not model.\<close>

lemma sum_list_replicate_real: "sum_list (replicate n (c::real)) = real n * c"
  by (induction n) (simp_all add: algebra_simps)

lemma perplexity_uniform:
  assumes "0 < n"
  shows "perplexity_of (replicate n (1 / real n)) = real n / (1 + real n / 10 ^ 10)"
proof -
  let ?x = "1 / real n + 1 / 10 ^ 10"
  have x: "0 < ?x" using assms by (simp add: add_pos_pos)
  have "sum_list (map (\<lambda>p. p * ln (p + 1 / 10 ^ 10)) (replicate n (1 / real n))) = ln ?x"
    using assms by (simp add: sum_list_replicate_real)
  then have "perplexity_of (replicate n (1 / real n)) = exp (- ln ?x)"
    by (simp add: perplexity_of_def)
  also have "\<dots> = 1 / ?x" using x by (simp add: exp_minus inverse_eq_divide)
  also have "\<dots> = real n / (1 + real n / 10 ^ 10)"
    using assms by (simp add: field_simps)
  finally show ?thesis .
qed

lemma unit_sum_zero:
  "n \<le> c \<Longrightarrow>
   sum_list (map (\<lambda>p. p * ln (p + e)) (map (\<lambda>k. if k = c then 1 else (0::real)) [0..<n])) = 0"
  by (induction n) simp_all

lemma unit_sum:
  assumes "c < n"
  shows "sum_list (map (\<lambda>p. p * ln (p + e)) (map (\<lambda>k. if k = c then 1 else 0) [0..<n]))
           = ln (1 + (e::real))"
  using assms
proof (induction n)
  case 0
  then show ?case by simp
next
  case (Suc n)
  show ?case
  proof (cases "c = n")
    case True
    have "sum_list (map (\<lambda>p. p * ln (p + e)) (map (\<lambda>k. if k = n then 1 else 0) [0..<n])) = 0"
      by (rule unit_sum_zero) simp
    with True show ?thesis by simp
  next
    case False
    with Suc have "c < n" by simp
    with Suc.IH show ?thesis using False by simp
  qed
qed

lemma perplexity_single:
  assumes "c < n"
  shows "perplexity_of (map (\<lambda>k. if k = c then 1 else 0) [0..<n]) = 1 / (1 + 1 / 10 ^ 10)"
proof -
  have "perplexity_of (map (\<lambda>k. if k = c then 1 else 0) [0..<n]) = exp (- ln (1 + 1 / 10 ^ 10))"
    unfolding perplexity_of_def unit_sum [OF assms] ..
  also have "\<dots> = 1 / (1 + 1 / 10 ^ 10)"
    by (simp add: exp_minus inverse_eq_divide)
  finally show ?thesis .
qed

lemma perplexity_example: "perplexity [[[0, 0]]] 2 = 1 / (1 + 1 / 10 ^ 10)"
  using perplexity_single [of 0 2]
  by (simp add: perplexity_def one_hot_rows_def mean_dim0_def Let_def numeral_2_eq_2)

end
